theory Spec2Isabelle
  imports Main "HOL-Library.AList"
begin

section \<open>The file system seen by \<open>re_backuper.py\<close>\<close>

text \<open>
  The script works on two directories, \<open>SRC_DIRECTORY\<close> and \<open>DIST_DIRECTORY\<close>, and looks
  at their direct entries only.
  A directory is an association list from base names to entries; \<open>os.listdir\<close> returns
  its keys in the order of the list, which is arbitrary, as the order of
  \<open>os.listdir\<close> is. An entry is a regular file (contents, permission bits, modification
  time) or a subdirectory, whose contents the script never looks at. A directory that
  does not exist is \<open>None\<close>. Names are compared as Python compares \<open>str\<close>: exactly.
\<close>

type_synonym name = string

record regular_file =
  content :: string
  mode :: nat
  mtime :: nat

datatype entry = File regular_file | Dir

type_synonym directory = "(name \<times> entry) list"

datatype dir_id = SRC_DIRECTORY | DIST_DIRECTORY

text \<open>
  \<open>DIST_DIRECTORY\<close> is the directory \<open>backup\<close> in \<open>server_tfc_halloween\<close> in
  \<open>minecraft_servers\<close> on drive \<open>A:\<close>: it lies two directories below the root of its
  drive. A path below that root is the list of
  its components, the innermost first, so that \<open>os.path.split\<close> takes a path apart into
  the first element (the tail) and the rest (the head); the root is the empty list.
\<close>

type_synonym path = "name list"

definition dist_path :: path where
  "dist_path = [''backup'', ''server_tfc_halloween'', ''minecraft_servers'']"

text \<open>The exceptions that the modelled calls raise.\<close>

datatype error =
    FileNotFoundError
  | FileExistsError
  | IsADirectoryError
  | OSError
  | ValueError
  | OverflowError
  | SpeechEngineError

text \<open>
  Everything the main thread does to the outside world is recorded, in order, in a
  trace: calls of \<open>os\<close> and \<open>shutil\<close>, each line given to the logger, the two alert
  calls and the sleep.
\<close>

datatype event =
    EvMkdir path
  | EvListdir dir_id
  | LogCopying name
  | EvCopy name
  | LogCopyFailed name
  | LogSkipped name
  | LogRemoving name
  | EvRemove name
  | LogRemoveFailed name
  | LogTraceback
  | EvAlertError
  | EvAlertMsg string
  | EvSleep int

text \<open>
  The state: the two directories, the directories above the destination that exist
  (\<open>dirs\<close>), the time and the trace.
\<close>

record world =
  src_dir :: "directory option"
  dist_dir :: "directory option"
  dirs :: "path list"
  clock :: nat
  trace :: "event list"

text \<open>
  What the script cannot decide is decided by the environment of a cycle: whether
  creating a given directory or \<open>os.listdir\<close> fails, whether copying or removing a given file
  fails (permissions, a full disk, a file in use), and whether the speech engine works.
  A copy that fails may leave a partial file behind at the destination path.
\<close>

datatype copy_fault = CopyOk | CopyFails "regular_file option"

record env =
  mkdir_fails :: "path \<Rightarrow> bool"
  listdir_fails :: "dir_id \<Rightarrow> bool"
  copy_outcome :: "name \<Rightarrow> copy_fault"
  remove_fails :: "name \<Rightarrow> bool"
  tts_fails :: bool

definition emit :: "event \<Rightarrow> world \<Rightarrow> world" where
  "emit e w = w\<lparr>trace := trace w @ [e]\<rparr>"

definition get_dir :: "dir_id \<Rightarrow> world \<Rightarrow> directory option" where
  "get_dir d w = (case d of SRC_DIRECTORY \<Rightarrow> src_dir w | DIST_DIRECTORY \<Rightarrow> dist_dir w)"

subsection \<open>Library calls\<close>

text \<open>\<open>os.path.exists(DIST_DIRECTORY)\<close>\<close>

definition os_path_exists :: "dir_id \<Rightarrow> world \<Rightarrow> bool" where
  "os_path_exists d w = (get_dir d w \<noteq> None)"

text \<open>
  Whether a directory exists. The root of the drive does; the destination does when
  \<open>dist_dir\<close> is not \<open>None\<close>.
\<close>

definition dir_exists :: "path \<Rightarrow> world \<Rightarrow> bool" where
  "dir_exists p w =
     (if p = dist_path then dist_dir w \<noteq> None else p = [] \<or> p \<in> set (dirs w))"

text \<open>
  \<open>os.mkdir(p)\<close> creates one directory, empty. It raises \<open>FileExistsError\<close> when the
  path exists, \<open>FileNotFoundError\<close> when the parent directory does not, and \<open>OSError\<close>
  when the environment refuses.
\<close>

definition os_mkdir :: "env \<Rightarrow> path \<Rightarrow> world \<Rightarrow> error option \<times> world" where
  "os_mkdir en p w =
     (let w1 = emit (EvMkdir p) w in
      if dir_exists p w then (Some FileExistsError, w1)
      else if \<not> dir_exists (tl p) w then (Some FileNotFoundError, w1)
      else if mkdir_fails en p then (Some OSError, w1)
      else if p = dist_path then (None, w1\<lparr>dist_dir := Some []\<rparr>)
      else (None, w1\<lparr>dirs := dirs w @ [p]\<rparr>))"

text \<open>
  \<open>os.makedirs(name)\<close>, as the standard library has it: the name is split into head
  and tail; when the head is not empty and does not exist, \<open>makedirs(head)\<close> is called
  first, and a \<open>FileExistsError\<close> from that call is passed over; then \<open>mkdir(name)\<close> is
  called, whose exception, with \<open>exist_ok\<close> left false, is raised again.
\<close>

fun os_makedirs :: "env \<Rightarrow> path \<Rightarrow> world \<Rightarrow> error option \<times> world" where
  "os_makedirs en [] w = os_mkdir en [] w"
| "os_makedirs en (tail # head) w =
     (if head \<noteq> [] \<and> \<not> dir_exists head w then
        (case os_makedirs en head w of
           (None, w1) \<Rightarrow> os_mkdir en (tail # head) w1
         | (Some e, w1) \<Rightarrow>
             if e = FileExistsError then os_mkdir en (tail # head) w1 else (Some e, w1))
      else os_mkdir en (tail # head) w)"

text \<open>\<open>os.listdir(d)\<close>: the names in the directory, or an exception.\<close>

definition os_listdir :: "env \<Rightarrow> dir_id \<Rightarrow> world \<Rightarrow> (error + name list) \<times> world" where
  "os_listdir en d w =
     (let w1 = emit (EvListdir d) w in
      case get_dir d w of
        None \<Rightarrow> (Inl FileNotFoundError, w1)
      | Some al \<Rightarrow> if listdir_fails en d then (Inl OSError, w1) else (Inr (map fst al), w1))"

text \<open>
  \<open>shutil.copy(src_path, dist_path)\<close> is the standard library's \<open>copyfile\<close> followed by
  \<open>copymode\<close>: the destination file gets the contents and the permission bits of the
  source file. Its modification time is that of the writing, since \<open>shutil.copy\<close>, unlike
  \<open>shutil.copy2\<close>, does not copy timestamps. Copying a directory raises. When the
  destination path is an existing directory the file is copied into it, which a flat
  model does not show.
\<close>

definition shutil_copy :: "env \<Rightarrow> name \<Rightarrow> world \<Rightarrow> error option \<times> world" where
  "shutil_copy en f w =
     (let w1 = emit (EvCopy f) w in
      case src_dir w of
        None \<Rightarrow> (Some FileNotFoundError, w1)
      | Some s \<Rightarrow>
         (case map_of s f of
            None \<Rightarrow> (Some FileNotFoundError, w1)
          | Some Dir \<Rightarrow> (Some IsADirectoryError, w1)
          | Some (File x) \<Rightarrow>
             (case dist_dir w of
                None \<Rightarrow> (Some FileNotFoundError, w1)
              | Some d \<Rightarrow>
                 if map_of d f = Some Dir then (None, w1)
                 else
                  (case copy_outcome en f of
                     CopyFails None \<Rightarrow> (Some OSError, w1)
                   | CopyFails (Some part) \<Rightarrow>
                       (Some OSError, w1\<lparr>dist_dir := Some (AList.update f (File part) d)\<rparr>)
                   | CopyOk \<Rightarrow>
                       (None, w1\<lparr>dist_dir := Some (AList.update f
                          (File \<lparr>content = content x, mode = mode x, mtime = clock w\<rparr>) d)\<rparr>)))))"

text \<open>\<open>os.remove(dist_path)\<close>: removes a regular file; raises on a directory, on a
  missing file and when the environment refuses.\<close>

definition os_remove :: "env \<Rightarrow> name \<Rightarrow> world \<Rightarrow> error option \<times> world" where
  "os_remove en f w =
     (let w1 = emit (EvRemove f) w in
      case dist_dir w of
        None \<Rightarrow> (Some FileNotFoundError, w1)
      | Some d \<Rightarrow>
         (case map_of d f of
            None \<Rightarrow> (Some FileNotFoundError, w1)
          | Some Dir \<Rightarrow> (Some IsADirectoryError, w1)
          | Some (File x) \<Rightarrow>
              if remove_fails en f then (Some OSError, w1)
              else (None, w1\<lparr>dist_dir := Some (AList.delete f d)\<rparr>)))"

text \<open>
  \<open>time.sleep(secs)\<close>. CPython turns the length into a count of nanoseconds in a signed
  64-bit integer and raises \<open>OverflowError\<close> when it does not fit, that is, beyond
  9223372036 seconds; then it raises \<open>ValueError\<close> on a negative length.
\<close>

definition sleep_error :: "int \<Rightarrow> error option" where
  "sleep_error secs =
     (if secs < - 9223372036 \<or> 9223372036 < secs then Some OverflowError
      else if secs < 0 then Some ValueError
      else None)"

definition time_sleep :: "int \<Rightarrow> world \<Rightarrow> error option \<times> world" where
  "time_sleep secs w =
     (case sleep_error secs of
        Some e \<Rightarrow> (Some e, w)
      | None \<Rightarrow> (None, (emit (EvSleep secs) w)\<lparr>clock := clock w + nat secs\<rparr>))"

text \<open>
  \<open>audio_alert.alert_error()\<close>, as the main thread sees it: a thread running
  \<open>_alert_error\<close> is started and the caller sleeps one second. The body of the thread
  is modelled in the section on the notification controller.
\<close>

definition alert_error :: "world \<Rightarrow> world" where
  "alert_error w = (emit EvAlertError w)\<lparr>clock := clock w + 1\<rparr>"

text \<open>
  \<open>audio_alert.alert_msg(message)\<close>: \<open>pyttsx3.init()\<close>, \<open>engine.say\<close>,
  \<open>engine.runAndWait()\<close>, with no \<open>try\<close> around them.
\<close>

definition alert_msg :: "env \<Rightarrow> string \<Rightarrow> world \<Rightarrow> error option \<times> world" where
  "alert_msg en message w =
     (let w1 = emit (EvAlertMsg message) w in
      if tts_fails en then (Some SpeechEngineError, w1) else (None, w1))"

section \<open>\<open>make_re_backup\<close>\<close>

text \<open>
  The body of the first \<open>for\<close> loop (lines 85 to 95). The line \<open>File skipped\<close> is
  logged for every file, copied or not, as the source has it.
\<close>

definition copy_body :: "env \<Rightarrow> name list \<Rightarrow> name \<Rightarrow> bool \<times> world \<Rightarrow> bool \<times> world" where
  "copy_body en dist_files f s =
     (let (was_error, w) = s;
          (was_error1, w1) =
            (if f \<notin> set dist_files then
               (case shutil_copy en f (emit (LogCopying f) w) of
                  (None, w') \<Rightarrow> (was_error, w')
                | (Some e, w') \<Rightarrow> (True, emit LogTraceback (emit (LogCopyFailed f) w')))
             else (was_error, w))
      in (was_error1, emit (LogSkipped f) w1))"

fun copy_loop :: "env \<Rightarrow> name list \<Rightarrow> name list \<Rightarrow> bool \<times> world \<Rightarrow> bool \<times> world" where
  "copy_loop en dist_files [] s = s"
| "copy_loop en dist_files (f # rest) s = copy_loop en dist_files rest (copy_body en dist_files f s)"

text \<open>The body of the second \<open>for\<close> loop (lines 99 to 107).\<close>

definition remove_body :: "env \<Rightarrow> name list \<Rightarrow> name \<Rightarrow> bool \<times> world \<Rightarrow> bool \<times> world" where
  "remove_body en src_files f s =
     (let (was_error, w) = s in
      if f \<notin> set src_files then
        (case os_remove en f (emit (LogRemoving f) w) of
           (None, w') \<Rightarrow> (was_error, w')
         | (Some e, w') \<Rightarrow> (True, emit LogTraceback (emit (LogRemoveFailed f) w')))
      else (was_error, w))"

fun remove_loop :: "env \<Rightarrow> name list \<Rightarrow> name list \<Rightarrow> bool \<times> world \<Rightarrow> bool \<times> world" where
  "remove_loop en src_files [] s = s"
| "remove_loop en src_files (f # rest) s = remove_loop en src_files rest (remove_body en src_files f s)"

text \<open>
  Lines 82 to 107: the flag is reset, then the copy phase and the delete phase run on
  the two snapshots. Python's \<open>set(os.listdir(...))\<close> is the listing without
  duplicates; a \<open>for\<close> loop over a set visits each element once, in an order that the
  language leaves open and that is here the order of the listing.
\<close>

definition sync_phases :: "env \<Rightarrow> name list \<Rightarrow> name list \<Rightarrow> world \<Rightarrow> bool \<times> world" where
  "sync_phases en src_files dist_files w =
     remove_loop en src_files dist_files (copy_loop en dist_files src_files (False, w))"

text \<open>Lines 75 to 107: make the destination, take the snapshots, run the phases.
  The result is the flag \<open>was_error\<close>, or the exception that escaped.\<close>

definition sync_once :: "env \<Rightarrow> world \<Rightarrow> (error + bool) \<times> world" where
  "sync_once en w =
     (case (if \<not> os_path_exists DIST_DIRECTORY w then os_makedirs en dist_path w
            else (None, w)) of
        (Some e, w1) \<Rightarrow> (Inl e, w1)
      | (None, w1) \<Rightarrow>
         (case os_listdir en SRC_DIRECTORY w1 of
            (Inl e, w2) \<Rightarrow> (Inl e, w2)
          | (Inr src_listing, w2) \<Rightarrow>
             (case os_listdir en DIST_DIRECTORY w2 of
                (Inl e, w3) \<Rightarrow> (Inl e, w3)
              | (Inr dist_listing, w3) \<Rightarrow>
                  (case sync_phases en (remdups src_listing) (remdups dist_listing) w3 of
                     (was_error, w4) \<Rightarrow> (Inr was_error, w4)))))"

text \<open>Lines 108 to 111.\<close>

definition alert_if_error :: "env \<Rightarrow> bool \<Rightarrow> world \<Rightarrow> error option \<times> world" where
  "alert_if_error en was_error w =
     (if was_error then alert_msg en ''backup error'' (alert_error w) else (None, w))"

text \<open>One pass of the \<open>while True\<close> loop (lines 74 to 112).\<close>

definition cycle :: "env \<Rightarrow> int \<Rightarrow> world \<Rightarrow> error option \<times> world" where
  "cycle en timeaut_minutes w =
     (case sync_once en w of
        (Inl e, w1) \<Rightarrow> (Some e, w1)
      | (Inr was_error, w1) \<Rightarrow>
         (case alert_if_error en was_error w1 of
            (Some e, w2) \<Rightarrow> (Some e, w2)
          | (None, w2) \<Rightarrow> time_sleep (timeaut_minutes * 60) w2))"

text \<open>
  The loop never ends by itself. It is run here for as many cycles as there are
  environments in the list: the result \<open>(None, w)\<close> says that the loop is still running
  after them, \<open>(Some e, w)\<close> that the exception \<open>e\<close> escaped from a cycle and ended
  \<open>make_re_backup\<close>.
\<close>

fun make_re_backup :: "env list \<Rightarrow> int \<Rightarrow> world \<Rightarrow> error option \<times> world" where
  "make_re_backup [] timeaut_minutes w = (None, w)"
| "make_re_backup (en # ens) timeaut_minutes w =
     (case cycle en timeaut_minutes w of
        (Some e, w1) \<Rightarrow> (Some e, w1)
      | (None, w1) \<Rightarrow> make_re_backup ens timeaut_minutes w1)"

section \<open>The notification controller (\<open>audio_alerts.py\<close>)\<close>

text \<open>
  The controller keeps three default paths and the three base names derived from them.
  The logger it also keeps is never used. \<open>os.path.basename\<close> depends on the platform
  and is a parameter of the constructor; \<open>posix_basename\<close> is the one of \<open>posixpath\<close>.
\<close>

record NotificationController =
  custom_success_sound_path :: string
  custom_warning_sound_path :: string
  custom_error_sound_path :: string
  default_success_sound_path :: string
  default_error_sound_path :: string
  default_warning_sound_path :: string

definition posix_basename :: "string \<Rightarrow> string" where
  "posix_basename p = rev (takeWhile (\<lambda>c. c \<noteq> CHR ''/'') (rev p))"

definition NotificationController_init ::
  "(string \<Rightarrow> string) \<Rightarrow> string \<Rightarrow> string \<Rightarrow> string \<Rightarrow> NotificationController" where
  "NotificationController_init basename default_success default_error default_warning =
     \<lparr>custom_success_sound_path = basename default_success,
      custom_warning_sound_path = basename default_warning,
      custom_error_sound_path = basename default_error,
      default_success_sound_path = default_success,
      default_error_sound_path = default_error,
      default_warning_sound_path = default_warning\<rparr>"

text \<open>
  The audio side of the process: whether \<open>pygame.mixer\<close> is initialised, that is,
  whether the process holds the audio output, and the calls made so far. \<open>AlertSound p\<close>
  marks a call of \<open>alert_sound\<close> with the path \<open>p\<close>.
\<close>

datatype audio_event =
    AlertSound string
  | MixerInit
  | MusicLoad string
  | MusicPlay
  | BusySleep
  | MusicStop
  | MixerQuit

record audio =
  mixer_initialised :: bool
  audio_trace :: "audio_event list"

text \<open>
  The environment decides whether the device can be opened, whether a path can be
  loaded (it exists and decodes), whether playing starts, and how many times
  \<open>get_busy()\<close> answers true before the playback is over: \<open>None\<close> when it never is.
\<close>

record audio_env =
  device_available :: bool
  load_ok :: "string \<Rightarrow> bool"
  play_ok :: "string \<Rightarrow> bool"
  busy_polls :: "string \<Rightarrow> nat option"

text \<open>A call returns a value, or it never returns.\<close>

datatype 'a outcome = Returns 'a | Hangs

definition audio_emit :: "audio_event \<Rightarrow> audio \<Rightarrow> audio" where
  "audio_emit e a = a\<lparr>audio_trace := audio_trace a @ [e]\<rparr>"

text \<open>The loop \<open>while pygame.mixer.music.get_busy(): time.sleep(0.1)\<close>, for a playback
  that ends after \<open>n\<close> polls.\<close>

fun wait_busy :: "nat \<Rightarrow> audio \<Rightarrow> audio" where
  "wait_busy 0 a = a"
| "wait_busy (Suc n) a = wait_busy n (audio_emit BusySleep a)"

text \<open>
  \<open>alert_sound\<close> (lines 150 to 179). \<open>pygame.mixer.init()\<close> does nothing when the mixer
  is initialised already. An exception of \<open>init\<close>, \<open>load\<close> or \<open>play\<close> is caught by
  \<open>except Exception\<close>, whose handler only returns \<open>False\<close>; \<open>pygame.mixer.quit()\<close> is
  the last statement but one of the \<open>try\<close> block.
\<close>

definition alert_sound :: "audio_env \<Rightarrow> string \<Rightarrow> audio \<Rightarrow> bool outcome \<times> audio" where
  "alert_sound ae sound_file_path a =
     (let a0 = audio_emit MixerInit (audio_emit (AlertSound sound_file_path) a) in
      if \<not> mixer_initialised a \<and> \<not> device_available ae then (Returns False, a0)
      else
        (let a1 = audio_emit (MusicLoad sound_file_path) (a0\<lparr>mixer_initialised := True\<rparr>) in
         if \<not> load_ok ae sound_file_path then (Returns False, a1)
         else
           (let a2 = audio_emit MusicPlay a1 in
            if \<not> play_ok ae sound_file_path then (Returns False, a2)
            else
              (case busy_polls ae sound_file_path of
                 None \<Rightarrow> (Hangs, a2)
               | Some n \<Rightarrow>
                   (Returns True,
                    (audio_emit MixerQuit (audio_emit MusicStop (wait_busy n a2)))\<lparr>mixer_initialised := False\<rparr>)))))"

text \<open>The controller that \<open>make_re_backup\<close> builds before its loop (lines 66 to 72).\<close>

definition audio_alert :: "(string \<Rightarrow> string) \<Rightarrow> NotificationController" where
  "audio_alert basename =
     NotificationController_init basename ''data/bad.mp3'' ''data/bad.mp3'' ''data/bad.mp3''"

text \<open>\<open>_alert_success\<close>, \<open>_alert_warning\<close> and \<open>_alert_error\<close>: the bodies of the
  threads that \<open>alert_success\<close>, \<open>alert_warning\<close> and \<open>alert_error\<close> start.\<close>

definition private_alert_success ::
  "audio_env \<Rightarrow> NotificationController \<Rightarrow> audio \<Rightarrow> bool outcome \<times> audio" where
  "private_alert_success ae self a =
     (case alert_sound ae (custom_success_sound_path self) a of
        (Hangs, a1) \<Rightarrow> (Hangs, a1)
      | (Returns played, a1) \<Rightarrow>
          if \<not> played then alert_sound ae (default_success_sound_path self) a1
          else (Returns True, a1))"

definition private_alert_warning ::
  "audio_env \<Rightarrow> NotificationController \<Rightarrow> audio \<Rightarrow> unit outcome \<times> audio" where
  "private_alert_warning ae self a =
     (case alert_sound ae (custom_warning_sound_path self) a of
        (Hangs, a1) \<Rightarrow> (Hangs, a1)
      | (Returns played, a1) \<Rightarrow>
          if \<not> played then
            (case alert_sound ae (default_warning_sound_path self) a1 of
               (Hangs, a2) \<Rightarrow> (Hangs, a2)
             | (Returns r, a2) \<Rightarrow> (Returns (), a2))
          else (Returns (), a1))"

definition private_alert_error ::
  "audio_env \<Rightarrow> NotificationController \<Rightarrow> audio \<Rightarrow> bool outcome \<times> audio" where
  "private_alert_error ae self a =
     (case alert_sound ae (custom_error_sound_path self) a of
        (Hangs, a1) \<Rightarrow> (Hangs, a1)
      | (Returns played, a1) \<Rightarrow>
          if \<not> played then alert_sound ae (default_error_sound_path self) a1
          else (Returns True, a1))"

section \<open>Reading traces and directories\<close>

fun is_copy :: "event \<Rightarrow> name list" where
  "is_copy (EvCopy f) = [f]"
| "is_copy e = []"

fun is_remove :: "event \<Rightarrow> name list" where
  "is_remove (EvRemove f) = [f]"
| "is_remove e = []"

fun is_failure :: "event \<Rightarrow> bool" where
  "is_failure (LogCopyFailed f) = True"
| "is_failure (LogRemoveFailed f) = True"
| "is_failure e = False"

fun is_alert :: "event \<Rightarrow> bool" where
  "is_alert EvAlertError = True"
| "is_alert (EvAlertMsg m) = True"
| "is_alert e = False"

fun is_file_op :: "event \<Rightarrow> bool" where
  "is_file_op (EvCopy f) = True"
| "is_file_op (EvRemove f) = True"
| "is_file_op (EvMkdir p) = True"
| "is_file_op (EvListdir d) = True"
| "is_file_op e = False"

text \<open>The files that \<open>shutil.copy\<close> and \<open>os.remove\<close> were called on, in order; the
  number of failures logged; the alert calls.\<close>

definition copy_attempts :: "event list \<Rightarrow> name list" where
  "copy_attempts tr = concat (map is_copy tr)"

definition remove_attempts :: "event list \<Rightarrow> name list" where
  "remove_attempts tr = concat (map is_remove tr)"

definition failures :: "event list \<Rightarrow> nat" where
  "failures tr = length (filter is_failure tr)"

definition alert_events :: "event list \<Rightarrow> event list" where
  "alert_events tr = filter is_alert tr"

definition listing :: "directory option \<Rightarrow> name list" where
  "listing dopt = (case dopt of None \<Rightarrow> [] | Some al \<Rightarrow> map fst al)"

definition lookup :: "directory option \<Rightarrow> name \<Rightarrow> entry option" where
  "lookup dopt f = (case dopt of None \<Rightarrow> None | Some al \<Rightarrow> map_of al f)"

fun is_attempt :: "audio_event \<Rightarrow> string list" where
  "is_attempt (AlertSound p) = [p]"
| "is_attempt e = []"

definition attempts :: "audio \<Rightarrow> string list" where
  "attempts a = concat (map is_attempt (audio_trace a))"

text \<open>Whether the call in the body of a loop raises, in a given state.\<close>

definition copy_raises :: "env \<Rightarrow> world \<Rightarrow> name \<Rightarrow> bool" where
  "copy_raises en w f = (fst (shutil_copy en f (emit (LogCopying f) w)) \<noteq> None)"

definition remove_raises :: "env \<Rightarrow> world \<Rightarrow> name \<Rightarrow> bool" where
  "remove_raises en w f = (fst (os_remove en f (emit (LogRemoving f) w)) \<noteq> None)"

text \<open>
  Whether a pass gets as far as the two phases (nothing raised in lines 75 to 80), and
  the state in which they then start.
\<close>

definition reaches_phases :: "env \<Rightarrow> world \<Rightarrow> bool" where
  "reaches_phases en w =
     (\<not> (dist_dir w = None \<and> fst (os_makedirs en dist_path w) \<noteq> None) \<and>
      src_dir w \<noteq> None \<and>
      \<not> listdir_fails en SRC_DIRECTORY \<and> \<not> listdir_fails en DIST_DIRECTORY)"

definition after_makedirs :: "env \<Rightarrow> world \<Rightarrow> world" where
  "after_makedirs en w = (if dist_dir w = None then snd (os_makedirs en dist_path w) else w)"

definition at_snapshot :: "env \<Rightarrow> world \<Rightarrow> world" where
  "at_snapshot en w =
     emit (EvListdir DIST_DIRECTORY) (emit (EvListdir SRC_DIRECTORY) (after_makedirs en w))"

text \<open>What a pass adds to the trace after \<open>sync_once\<close>.\<close>

definition after_sync :: "env \<Rightarrow> int \<Rightarrow> error + bool \<Rightarrow> event list" where
  "after_sync en timeaut_minutes r =
     (case r of
        Inl e \<Rightarrow> []
      | Inr was_error \<Rightarrow>
          (if was_error then [EvAlertError, EvAlertMsg ''backup error''] else []) @
          (if (was_error \<and> tts_fails en) \<or> sleep_error (timeaut_minutes * 60) \<noteq> None then []
           else [EvSleep (timeaut_minutes * 60)]))"

text \<open>
  In a file system a directory exists only inside a directory that exists.
\<close>

definition well_formed :: "world \<Rightarrow> bool" where
  "well_formed w =
     ((\<forall>q \<in> set (dirs w). dir_exists (tl q) w) \<and>
      (dist_dir w \<noteq> None \<longrightarrow> dir_exists (tl dist_path) w))"

text \<open>The directories that \<open>os.mkdir\<close> was called on, in order.\<close>

fun is_mkdir :: "event \<Rightarrow> path list" where
  "is_mkdir (EvMkdir p) = [p]"
| "is_mkdir e = []"

definition mkdir_attempts :: "event list \<Rightarrow> path list" where
  "mkdir_attempts tr = concat (map is_mkdir tr)"

fun is_copy_failed :: "event \<Rightarrow> name list" where
  "is_copy_failed (LogCopyFailed f) = [f]"
| "is_copy_failed e = []"

fun is_remove_failed :: "event \<Rightarrow> name list" where
  "is_remove_failed (LogRemoveFailed f) = [f]"
| "is_remove_failed e = []"

text \<open>The files for which a failed copy, or a failed removal, was logged, in order.\<close>

definition failed_copies :: "event list \<Rightarrow> name list" where
  "failed_copies tr = concat (map is_copy_failed tr)"

definition failed_removes :: "event list \<Rightarrow> name list" where
  "failed_removes tr = concat (map is_remove_failed tr)"

text \<open>
  The names that the two loops act on: those of \<open>src_files\<close> that are not in
  \<open>dist_files\<close>, and those of \<open>dist_files\<close> that are not in \<open>src_files\<close>, in the order of
  the iteration.
\<close>

definition pending_copies :: "world \<Rightarrow> name list" where
  "pending_copies w =
     filter (\<lambda>f. f \<notin> set (listing (dist_dir w))) (remdups (listing (src_dir w)))"


section \<open>Example states\<close>

text \<open>An environment in which nothing fails, and one in which the copy of \<open>a.txt\<close>,
  the removal of \<open>c.txt\<close>, the creation of \<open>server_tfc_halloween\<close> and the speech
  engine fail.\<close>

definition quiet_env :: env where
  "quiet_env = \<lparr>mkdir_fails = (\<lambda>p. False), listdir_fails = (\<lambda>d. False),
     copy_outcome = (\<lambda>f. CopyOk), remove_fails = (\<lambda>f. False), tts_fails = False\<rparr>"

definition faulty_env :: env where
  "faulty_env = \<lparr>mkdir_fails = (\<lambda>p. p = [''server_tfc_halloween'', ''minecraft_servers'']),
     listdir_fails = (\<lambda>d. False),
     copy_outcome = (\<lambda>f. if f = ''a.txt'' then CopyFails None else CopyOk),
     remove_fails = (\<lambda>f. f = ''c.txt''), tts_fails = True\<rparr>"


text \<open>The scenario of the specification: the source holds \<open>a.txt\<close> and \<open>b.txt\<close>, the
  destination \<open>b.txt\<close> and \<open>c.txt\<close>.\<close>

definition scenario_world :: world where
  "scenario_world =
     \<lparr>src_dir = Some [(''a.txt'', File \<lparr>content = ''aaa'', mode = 420, mtime = 1\<rparr>),
                      (''b.txt'', File \<lparr>content = ''bbb'', mode = 420, mtime = 2\<rparr>)],
      dist_dir = Some [(''b.txt'', File \<lparr>content = ''old'', mode = 384, mtime = 0\<rparr>),
                       (''c.txt'', File \<lparr>content = ''ccc'', mode = 420, mtime = 0\<rparr>)],
      dirs = [[''minecraft_servers''], [''server_tfc_halloween'', ''minecraft_servers'']],
      clock = 5, trace = []\<rparr>"

text \<open>The same source, with neither the destination directory nor the two directories
  above it.\<close>

definition fresh_world :: world where
  "fresh_world =
     \<lparr>src_dir = Some [(''a.txt'', File \<lparr>content = ''aaa'', mode = 420, mtime = 1\<rparr>),
                      (''b.txt'', File \<lparr>content = ''bbb'', mode = 420, mtime = 2\<rparr>)],
      dist_dir = None, dirs = [], clock = 5, trace = []\<rparr>"

text \<open>Source and destination with the same names.\<close>

definition synced_world :: world where
  "synced_world =
     \<lparr>src_dir = Some [(''a.txt'', File \<lparr>content = ''aaa'', mode = 420, mtime = 1\<rparr>),
                      (''b.txt'', File \<lparr>content = ''bbb'', mode = 420, mtime = 2\<rparr>)],
      dist_dir = Some [(''b.txt'', File \<lparr>content = ''old'', mode = 384, mtime = 0\<rparr>),
                       (''a.txt'', File \<lparr>content = ''aaa'', mode = 420, mtime = 5\<rparr>)],
      dirs = [[''minecraft_servers''], [''server_tfc_halloween'', ''minecraft_servers'']],
      clock = 9, trace = []\<rparr>"


subsection \<open>Audio\<close>

text \<open>The mixer not initialised and nothing played yet.\<close>

definition silent_audio :: audio where
  "silent_audio = \<lparr>mixer_initialised = False, audio_trace = []\<rparr>"

text \<open>A working device; only \<open>data/bad.mp3\<close> can be loaded, so that there is no
  override file \<open>bad.mp3\<close> in the working directory.\<close>

definition default_only_env :: audio_env where
  "default_only_env = \<lparr>device_available = True, load_ok = (\<lambda>p. p = ''data/bad.mp3''),
     play_ok = (\<lambda>p. True), busy_polls = (\<lambda>p. Some 2)\<rparr>"

text \<open>A working device and every path loadable.\<close>

definition all_files_env :: audio_env where
  "all_files_env = \<lparr>device_available = True, load_ok = (\<lambda>p. True),
     play_ok = (\<lambda>p. True), busy_polls = (\<lambda>p. Some 2)\<rparr>"

section \<open>Facts about the model\<close>

subsection \<open>Traces and directories\<close>

lemma emit_simps [simp]:
  "trace (emit e w) = trace w @ [e]"
  "src_dir (emit e w) = src_dir w"
  "dist_dir (emit e w) = dist_dir w"
  "dirs (emit e w) = dirs w"
  "clock (emit e w) = clock w"
  by (simp_all add: emit_def)

lemma copy_attempts_simps [simp]:
  "copy_attempts [] = []"
  "copy_attempts (e # tr) = is_copy e @ copy_attempts tr"
  "copy_attempts (tr @ tr') = copy_attempts tr @ copy_attempts tr'"
  by (simp_all add: copy_attempts_def)

lemma remove_attempts_simps [simp]:
  "remove_attempts [] = []"
  "remove_attempts (e # tr) = is_remove e @ remove_attempts tr"
  "remove_attempts (tr @ tr') = remove_attempts tr @ remove_attempts tr'"
  by (simp_all add: remove_attempts_def)

lemma failures_simps [simp]:
  "failures [] = 0"
  "failures (e # tr) = (if is_failure e then 1 else 0) + failures tr"
  "failures (tr @ tr') = failures tr + failures tr'"
  by (simp_all add: failures_def)

lemma alert_events_simps [simp]:
  "alert_events [] = []"
  "alert_events (e # tr) = (if is_alert e then [e] else []) @ alert_events tr"
  "alert_events (tr @ tr') = alert_events tr @ alert_events tr'"
  by (simp_all add: alert_events_def)

lemma lookup_simps [simp]:
  "lookup None = Map.empty"
  "lookup (Some al) = map_of al"
  by (rule ext, simp add: lookup_def)+

lemma listing_simps [simp]:
  "listing None = []"
  "listing (Some al) = map fst al"
  by (simp_all add: listing_def)

lemma dom_lookup: "dom (lookup dopt) = set (listing dopt)"
  by (cases dopt) (simp_all add: dom_map_of_conv_image_fst)

subsection \<open>What \<open>shutil.copy\<close> changes\<close>

lemma shutil_copy_trace [simp]: "trace (snd (shutil_copy en f w)) = trace w @ [EvCopy f]"
  by (simp add: shutil_copy_def Let_def split: option.splits entry.splits copy_fault.splits)

lemma shutil_copy_src [simp]: "src_dir (snd (shutil_copy en f w)) = src_dir w"
  by (simp add: shutil_copy_def Let_def split: option.splits entry.splits copy_fault.splits)

lemma shutil_copy_clock [simp]: "clock (snd (shutil_copy en f w)) = clock w"
  by (simp add: shutil_copy_def Let_def split: option.splits entry.splits copy_fault.splits)

lemma shutil_copy_exists [simp]: "(dist_dir (snd (shutil_copy en f w)) = None) = (dist_dir w = None)"
  by (simp add: shutil_copy_def Let_def split: option.splits entry.splits copy_fault.splits)

lemma shutil_copy_frame: "g \<noteq> f \<Longrightarrow> lookup (dist_dir (snd (shutil_copy en f w))) g = lookup (dist_dir w) g"
  by (simp add: shutil_copy_def Let_def update_conv' split: option.splits entry.splits copy_fault.splits)


subsection \<open>What \<open>os.remove\<close> changes\<close>

lemma os_remove_trace [simp]: "trace (snd (os_remove en f w)) = trace w @ [EvRemove f]"
  by (simp add: os_remove_def Let_def split: option.splits entry.splits)

lemma os_remove_src [simp]: "src_dir (snd (os_remove en f w)) = src_dir w"
  by (simp add: os_remove_def Let_def split: option.splits entry.splits)

lemma os_remove_clock [simp]: "clock (snd (os_remove en f w)) = clock w"
  by (simp add: os_remove_def Let_def split: option.splits entry.splits)

lemma os_remove_exists [simp]: "(dist_dir (snd (os_remove en f w)) = None) = (dist_dir w = None)"
  by (simp add: os_remove_def Let_def split: option.splits entry.splits)

lemma os_remove_frame: "g \<noteq> f \<Longrightarrow> lookup (dist_dir (snd (os_remove en f w))) g = lookup (dist_dir w) g"
  by (simp add: os_remove_def Let_def delete_conv' split: option.splits entry.splits)


subsection \<open>The bodies of the two loops\<close>

lemma copy_body_eq:
  "copy_body en D f (b, w) =
     (b \<or> (f \<notin> set D \<and> copy_raises en w f),
      emit (LogSkipped f)
        (if f \<in> set D then w
         else if copy_raises en w f
           then emit LogTraceback (emit (LogCopyFailed f) (snd (shutil_copy en f (emit (LogCopying f) w))))
           else snd (shutil_copy en f (emit (LogCopying f) w))))"
  by (cases "shutil_copy en f (emit (LogCopying f) w)")
     (auto simp add: copy_body_def copy_raises_def split: option.splits)

lemma remove_body_eq:
  "remove_body en S f (b, w) =
     (b \<or> (f \<notin> set S \<and> remove_raises en w f),
      (if f \<in> set S then w
       else if remove_raises en w f
         then emit LogTraceback (emit (LogRemoveFailed f) (snd (os_remove en f (emit (LogRemoving f) w))))
         else snd (os_remove en f (emit (LogRemoving f) w))))"
  by (cases "os_remove en f (emit (LogRemoving f) w)")
     (auto simp add: remove_body_def remove_raises_def split: option.splits)

lemma copy_body_trace:
  "trace (snd (copy_body en D f (b, w))) =
     trace w @ (if f \<notin> set D then [LogCopying f, EvCopy f] @
                  (if copy_raises en w f then [LogCopyFailed f, LogTraceback] else [])
                else []) @ [LogSkipped f]"
  by (simp add: copy_body_eq)

lemma remove_body_trace:
  "trace (snd (remove_body en S f (b, w))) =
     trace w @ (if f \<notin> set S then [LogRemoving f, EvRemove f] @
                  (if remove_raises en w f then [LogRemoveFailed f, LogTraceback] else [])
                else [])"
  by (simp add: remove_body_eq)

lemma copy_body_src [simp]: "src_dir (snd (copy_body en D f s)) = src_dir (snd s)"
  by (cases s) (simp add: copy_body_eq)

lemma remove_body_src [simp]: "src_dir (snd (remove_body en S f s)) = src_dir (snd s)"
  by (cases s) (simp add: remove_body_eq)

lemma copy_body_exists [simp]: "(dist_dir (snd (copy_body en D f s)) = None) = (dist_dir (snd s) = None)"
  by (cases s) (simp add: copy_body_eq)

lemma remove_body_exists [simp]: "(dist_dir (snd (remove_body en S f s)) = None) = (dist_dir (snd s) = None)"
  by (cases s) (simp add: remove_body_eq)

lemma copy_body_frame:
  "g \<in> set D \<Longrightarrow> lookup (dist_dir (snd (copy_body en D f s))) g = lookup (dist_dir (snd s)) g"
proof (cases s)
  case (Pair b w)
  assume g: "g \<in> set D"
  show ?thesis
  proof (cases "f \<in> set D")
    case True
    with Pair show ?thesis by (simp add: copy_body_eq)
  next
    case False
    with g have "g \<noteq> f" by auto
    from shutil_copy_frame [OF this, of en "emit (LogCopying f) w"] Pair False
    show ?thesis by (simp add: copy_body_eq)
  qed
qed

lemma remove_body_frame:
  "g \<in> set S \<Longrightarrow> lookup (dist_dir (snd (remove_body en S f s))) g = lookup (dist_dir (snd s)) g"
proof (cases s)
  case (Pair b w)
  assume g: "g \<in> set S"
  show ?thesis
  proof (cases "f \<in> set S")
    case True
    with Pair show ?thesis by (simp add: remove_body_eq)
  next
    case False
    with g have "g \<noteq> f" by auto
    from os_remove_frame [OF this, of en "emit (LogRemoving f) w"] Pair False
    show ?thesis by (simp add: remove_body_eq)
  qed
qed



subsection \<open>The two loops\<close>

lemma copy_loop_src [simp]: "src_dir (snd (copy_loop en D xs s)) = src_dir (snd s)"
  by (induction xs arbitrary: s) simp_all

lemma remove_loop_src [simp]: "src_dir (snd (remove_loop en S xs s)) = src_dir (snd s)"
  by (induction xs arbitrary: s) simp_all

lemma copy_loop_exists [simp]: "(dist_dir (snd (copy_loop en D xs s)) = None) = (dist_dir (snd s) = None)"
  by (induction xs arbitrary: s) simp_all

lemma remove_loop_exists [simp]: "(dist_dir (snd (remove_loop en S xs s)) = None) = (dist_dir (snd s) = None)"
  by (induction xs arbitrary: s) simp_all

lemma copy_loop_frame:
  "g \<in> set D \<Longrightarrow> lookup (dist_dir (snd (copy_loop en D xs s))) g = lookup (dist_dir (snd s)) g"
  by (induction xs arbitrary: s) (simp_all add: copy_body_frame)

lemma remove_loop_frame:
  "g \<in> set S \<Longrightarrow> lookup (dist_dir (snd (remove_loop en S xs s))) g = lookup (dist_dir (snd s)) g"
  by (induction xs arbitrary: s) (simp_all add: remove_body_frame)





lemma copy_body_clock [simp]: "clock (snd (copy_body en D f s)) = clock (snd s)"
  by (cases s) (simp add: copy_body_eq)

lemma remove_body_clock [simp]: "clock (snd (remove_body en S f s)) = clock (snd s)"
  by (cases s) (simp add: remove_body_eq)

lemma copy_loop_clock [simp]: "clock (snd (copy_loop en D xs s)) = clock (snd s)"
  by (induction xs arbitrary: s) simp_all

lemma remove_loop_clock [simp]: "clock (snd (remove_loop en S xs s)) = clock (snd s)"
  by (induction xs arbitrary: s) simp_all

lemma copy_body_copies:
  "copy_attempts (trace (snd (copy_body en D f s))) =
     copy_attempts (trace (snd s)) @ (if f \<notin> set D then [f] else [])"
  by (cases s) (simp add: copy_body_trace)

lemma copy_body_removes:
  "remove_attempts (trace (snd (copy_body en D f s))) = remove_attempts (trace (snd s))"
  by (cases s) (simp add: copy_body_trace)

lemma copy_body_alerts:
  "alert_events (trace (snd (copy_body en D f s))) = alert_events (trace (snd s))"
  by (cases s) (simp add: copy_body_trace)

lemma copy_body_failures:
  "failures (trace (snd s)) \<le> failures (trace (snd (copy_body en D f s))) \<and>
   (fst (copy_body en D f s) =
      (fst s \<or> failures (trace (snd s)) < failures (trace (snd (copy_body en D f s)))))"
  by (cases s) (simp add: copy_body_trace copy_body_eq)

lemma remove_body_copies:
  "copy_attempts (trace (snd (remove_body en S f s))) = copy_attempts (trace (snd s))"
  by (cases s) (simp add: remove_body_trace)

lemma remove_body_removes:
  "remove_attempts (trace (snd (remove_body en S f s))) =
     remove_attempts (trace (snd s)) @ (if f \<notin> set S then [f] else [])"
  by (cases s) (simp add: remove_body_trace)

lemma remove_body_alerts:
  "alert_events (trace (snd (remove_body en S f s))) = alert_events (trace (snd s))"
  by (cases s) (simp add: remove_body_trace)

lemma remove_body_failures:
  "failures (trace (snd s)) \<le> failures (trace (snd (remove_body en S f s))) \<and>
   (fst (remove_body en S f s) =
      (fst s \<or> failures (trace (snd s)) < failures (trace (snd (remove_body en S f s)))))"
  by (cases s) (simp add: remove_body_trace remove_body_eq)

lemma copy_loop_copies:
  "copy_attempts (trace (snd (copy_loop en D xs s))) =
     copy_attempts (trace (snd s)) @ filter (\<lambda>f. f \<notin> set D) xs"
  by (induction xs arbitrary: s) (simp_all add: copy_body_copies)

lemma copy_loop_removes:
  "remove_attempts (trace (snd (copy_loop en D xs s))) = remove_attempts (trace (snd s))"
  by (induction xs arbitrary: s) (simp_all add: copy_body_removes)

lemma copy_loop_alerts:
  "alert_events (trace (snd (copy_loop en D xs s))) = alert_events (trace (snd s))"
  by (induction xs arbitrary: s) (simp_all add: copy_body_alerts)

lemma remove_loop_copies:
  "copy_attempts (trace (snd (remove_loop en S xs s))) = copy_attempts (trace (snd s))"
  by (induction xs arbitrary: s) (simp_all add: remove_body_copies)

lemma remove_loop_removes:
  "remove_attempts (trace (snd (remove_loop en S xs s))) =
     remove_attempts (trace (snd s)) @ filter (\<lambda>f. f \<notin> set S) xs"
  by (induction xs arbitrary: s) (simp_all add: remove_body_removes)

lemma remove_loop_alerts:
  "alert_events (trace (snd (remove_loop en S xs s))) = alert_events (trace (snd s))"
  by (induction xs arbitrary: s) (simp_all add: remove_body_alerts)

lemma copy_loop_failures:
  "failures (trace (snd s)) \<le> failures (trace (snd (copy_loop en D xs s))) \<and>
   (fst (copy_loop en D xs s) =
      (fst s \<or> failures (trace (snd s)) < failures (trace (snd (copy_loop en D xs s)))))"
proof (induction xs arbitrary: s)
  case Nil
  show ?case by simp
next
  case (Cons f xs)
  from Cons.IH [of "copy_body en D f s"] copy_body_failures [of s en D f]
  show ?case by auto
qed

lemma remove_loop_failures:
  "failures (trace (snd s)) \<le> failures (trace (snd (remove_loop en S xs s))) \<and>
   (fst (remove_loop en S xs s) =
      (fst s \<or> failures (trace (snd s)) < failures (trace (snd (remove_loop en S xs s)))))"
proof (induction xs arbitrary: s)
  case Nil
  show ?case by simp
next
  case (Cons f xs)
  from Cons.IH [of "remove_body en S f s"] remove_body_failures [of s en S f]
  show ?case by auto
qed

text \<open>The trace only grows, and a phase adds no alert to it.\<close>

lemma copy_body_grows: "\<exists>evs. trace (snd (copy_body en D f s)) = trace (snd s) @ evs \<and> alert_events evs = []"
  by (cases s) (simp add: copy_body_trace)

lemma remove_body_grows: "\<exists>evs. trace (snd (remove_body en S f s)) = trace (snd s) @ evs \<and> alert_events evs = []"
  by (cases s) (simp add: remove_body_trace)

lemma copy_loop_grows: "\<exists>evs. trace (snd (copy_loop en D xs s)) = trace (snd s) @ evs \<and> alert_events evs = []"
proof (induction xs arbitrary: s)
  case Nil
  show ?case by simp
next
  case (Cons f xs)
  from copy_body_grows [of en D f s] obtain e1
    where e1: "trace (snd (copy_body en D f s)) = trace (snd s) @ e1" "alert_events e1 = []" by blast
  from Cons.IH [of "copy_body en D f s"] obtain e2
    where e2: "trace (snd (copy_loop en D xs (copy_body en D f s))) = trace (snd (copy_body en D f s)) @ e2"
      "alert_events e2 = []" by blast
  from e1 e2 have "trace (snd (copy_loop en D (f # xs) s)) = trace (snd s) @ (e1 @ e2) \<and> alert_events (e1 @ e2) = []"
    by simp
  then show ?case by blast
qed

lemma remove_loop_grows: "\<exists>evs. trace (snd (remove_loop en S xs s)) = trace (snd s) @ evs \<and> alert_events evs = []"
proof (induction xs arbitrary: s)
  case Nil
  show ?case by simp
next
  case (Cons f xs)
  from remove_body_grows [of en S f s] obtain e1
    where e1: "trace (snd (remove_body en S f s)) = trace (snd s) @ e1" "alert_events e1 = []" by blast
  from Cons.IH [of "remove_body en S f s"] obtain e2
    where e2: "trace (snd (remove_loop en S xs (remove_body en S f s))) = trace (snd (remove_body en S f s)) @ e2"
      "alert_events e2 = []" by blast
  from e1 e2 have "trace (snd (remove_loop en S (f # xs) s)) = trace (snd s) @ (e1 @ e2) \<and> alert_events (e1 @ e2) = []"
    by simp
  then show ?case by blast
qed

subsection \<open>The two phases together\<close>

lemma sync_phases_copies:
  "copy_attempts (trace (snd (sync_phases en S D w))) =
     copy_attempts (trace w) @ filter (\<lambda>f. f \<notin> set D) S"
  by (simp add: sync_phases_def remove_loop_copies copy_loop_copies)

lemma sync_phases_removes:
  "remove_attempts (trace (snd (sync_phases en S D w))) =
     remove_attempts (trace w) @ filter (\<lambda>f. f \<notin> set S) D"
  by (simp add: sync_phases_def remove_loop_removes copy_loop_removes)

lemma sync_phases_alerts:
  "alert_events (trace (snd (sync_phases en S D w))) = alert_events (trace w)"
  by (simp add: sync_phases_def remove_loop_alerts copy_loop_alerts)

lemma sync_phases_failures:
  "failures (trace w) \<le> failures (trace (snd (sync_phases en S D w))) \<and>
   (fst (sync_phases en S D w) = (failures (trace w) < failures (trace (snd (sync_phases en S D w)))))"
  using copy_loop_failures [of "(False, w)" en D S]
    remove_loop_failures [of "copy_loop en D S (False, w)" en S D]
  by (auto simp add: sync_phases_def)

lemma sync_phases_grows:
  "\<exists>evs. trace (snd (sync_phases en S D w)) = trace w @ evs \<and> alert_events evs = []"
proof -
  from copy_loop_grows [of en D S "(False, w)"] obtain e1
    where e1: "trace (snd (copy_loop en D S (False, w))) = trace w @ e1" "alert_events e1 = []" by auto
  from remove_loop_grows [of en S D "copy_loop en D S (False, w)"] obtain e2
    where e2: "trace (snd (sync_phases en S D w)) = trace (snd (copy_loop en D S (False, w))) @ e2"
      "alert_events e2 = []" by (auto simp add: sync_phases_def)
  from e1 e2 have "trace (snd (sync_phases en S D w)) = trace w @ (e1 @ e2) \<and> alert_events (e1 @ e2) = []"
    by simp
  then show ?thesis by blast
qed

lemma sync_phases_src [simp]: "src_dir (snd (sync_phases en S D w)) = src_dir w"
  by (simp add: sync_phases_def)

lemma sync_phases_clock [simp]: "clock (snd (sync_phases en S D w)) = clock w"
  by (simp add: sync_phases_def)

lemma sync_phases_exists [simp]: "(dist_dir (snd (sync_phases en S D w)) = None) = (dist_dir w = None)"
  by (simp add: sync_phases_def)

lemma sync_phases_frame:
  "g \<in> set S \<Longrightarrow> g \<in> set D \<Longrightarrow> lookup (dist_dir (snd (sync_phases en S D w))) g = lookup (dist_dir w) g"
  by (simp add: sync_phases_def remove_loop_frame copy_loop_frame)


subsection \<open>Creating directories\<close>

lemma mkdir_attempts_simps [simp]:
  "mkdir_attempts [] = []"
  "mkdir_attempts (e # tr) = is_mkdir e @ mkdir_attempts tr"
  "mkdir_attempts (tr @ tr') = mkdir_attempts tr @ mkdir_attempts tr'"
  by (simp_all add: mkdir_attempts_def)

lemma dir_exists_emit [simp]: "dir_exists q (emit e w) = dir_exists q w"
  by (simp add: dir_exists_def)

lemma os_mkdir_simps [simp]:
  "trace (snd (os_mkdir en p w)) = trace w @ [EvMkdir p]"
  "src_dir (snd (os_mkdir en p w)) = src_dir w"
  "clock (snd (os_mkdir en p w)) = clock w"
  by (simp_all add: os_mkdir_def Let_def)

lemma dist_path_simps [simp]: "dist_path \<noteq> []" "[] \<noteq> dist_path"
  by (simp_all add: dist_path_def)

lemma dir_exists_root [simp]: "dir_exists [] w"
  by (simp add: dir_exists_def)

lemma os_mkdir_fields:
  "dirs (snd (os_mkdir en p w)) =
     (if fst (os_mkdir en p w) = None \<and> p \<noteq> dist_path then dirs w @ [p] else dirs w)"
  "dist_dir (snd (os_mkdir en p w)) =
     (if fst (os_mkdir en p w) = None \<and> p = dist_path then Some [] else dist_dir w)"
  by (simp_all add: os_mkdir_def Let_def)

lemma os_mkdir_dist:
  "p \<noteq> dist_path \<Longrightarrow> dist_dir (snd (os_mkdir en p w)) = dist_dir w"
  by (simp add: os_mkdir_fields)

lemma os_mkdir_dist_path:
  "dist_dir w = None \<Longrightarrow>
     dist_dir (snd (os_mkdir en dist_path w)) =
       (if fst (os_mkdir en dist_path w) = None then Some [] else None)"
  by (simp add: os_mkdir_fields)

lemma os_mkdir_exists:
  "dir_exists q (snd (os_mkdir en p w)) =
     (dir_exists q w \<or> (fst (os_mkdir en p w) = None \<and> q = p))"
  by (cases "q = dist_path"; cases "p = dist_path") (auto simp add: dir_exists_def os_mkdir_fields)

lemma os_mkdir_mono: "dir_exists q w \<Longrightarrow> dir_exists q (snd (os_mkdir en p w))"
  by (simp add: os_mkdir_exists)

lemma os_mkdir_ok: "fst (os_mkdir en p w) = None \<Longrightarrow> dir_exists p (snd (os_mkdir en p w))"
  by (simp add: os_mkdir_exists)

lemma os_mkdir_raises:
  "(fst (os_mkdir en p w) \<noteq> None) =
     (dir_exists p w \<or> \<not> dir_exists (tl p) w \<or> mkdir_fails en p)"
  by (simp add: os_mkdir_def Let_def)

lemma os_mkdir_wf:
  assumes "well_formed w"
  shows "well_formed (snd (os_mkdir en p w))"
proof (cases "fst (os_mkdir en p w) = None")
  case False
  with assms show ?thesis
    by (auto simp add: well_formed_def os_mkdir_fields os_mkdir_exists)
next
  case True
  then have par: "dir_exists (tl p) w"
    using os_mkdir_raises [of en p w] by auto
  with assms True show ?thesis
    by (cases "p = dist_path") (auto simp add: well_formed_def os_mkdir_fields os_mkdir_exists)
qed

text \<open>What every call of \<open>os.mkdir\<close> keeps, \<open>os.makedirs\<close> keeps.\<close>

lemma os_makedirs_keeps:
  assumes "P w" and "\<And>q v. length q \<le> length p \<Longrightarrow> P v \<Longrightarrow> P (snd (os_mkdir en q v))"
  shows "P (snd (os_makedirs en p w))"
  using assms
proof (induction en p w rule: os_makedirs.induct)
  case (1 en w)
  then show ?case by simp
next
  case (2 en tail head w)
  have last: "P (snd (os_mkdir en (tail # head) v))" if "P v" for v
    using "2.prems"(2) [of "tail # head" v] that by simp
  show ?case
  proof (cases "head \<noteq> [] \<and> \<not> dir_exists head w")
    case False
    then have "os_makedirs en (tail # head) w = os_mkdir en (tail # head) w" by auto
    with last [OF "2.prems"(1)] show ?thesis by simp
  next
    case True
    obtain r w1 where r: "os_makedirs en head w = (r, w1)" by (cases "os_makedirs en head w")
    have "P (snd (os_makedirs en head w))"
    proof (rule "2.IH" [OF True "2.prems"(1)])
      fix q :: path and v :: world assume "length q \<le> length head" and "P v"
      then show "P (snd (os_mkdir en q v))" using "2.prems"(2) [of q v] by simp
    qed
    with r have w1: "P w1" by simp
    show ?thesis
    proof (cases "r = None \<or> r = Some FileExistsError")
      case True
      with \<open>head \<noteq> [] \<and> \<not> dir_exists head w\<close> r
      have "os_makedirs en (tail # head) w = os_mkdir en (tail # head) w1" by auto
      with last [OF w1] show ?thesis by simp
    next
      case False
      then obtain e where "r = Some e" "e \<noteq> FileExistsError" by (cases r) auto
      with \<open>head \<noteq> [] \<and> \<not> dir_exists head w\<close> r
      have "os_makedirs en (tail # head) w = (Some e, w1)" by simp
      with w1 show ?thesis by simp
    qed
  qed
qed

lemma os_makedirs_src [simp]: "src_dir (snd (os_makedirs en p w)) = src_dir w"
  by (rule os_makedirs_keeps [where P = "\<lambda>v. src_dir v = src_dir w"]) simp_all

lemma os_makedirs_clock [simp]: "clock (snd (os_makedirs en p w)) = clock w"
  by (rule os_makedirs_keeps [where P = "\<lambda>v. clock v = clock w"]) simp_all

lemma os_makedirs_mono: "dir_exists q w \<Longrightarrow> dir_exists q (snd (os_makedirs en p w))"
  by (rule os_makedirs_keeps [where P = "\<lambda>v. dir_exists q v"]) (simp_all add: os_mkdir_mono)

lemma os_makedirs_wf: "well_formed w \<Longrightarrow> well_formed (snd (os_makedirs en p w))"
  by (rule os_makedirs_keeps [where P = well_formed]) (simp_all add: os_mkdir_wf)

lemma os_makedirs_dist_other:
  assumes "length p < length dist_path"
  shows "dist_dir (snd (os_makedirs en p w)) = dist_dir w"
proof (rule os_makedirs_keeps [where P = "\<lambda>v. dist_dir v = dist_dir w"])
  show "dist_dir w = dist_dir w" by simp
next
  fix q :: path and v :: world assume "length q \<le> length p" and v: "dist_dir v = dist_dir w"
  with assms have "q \<noteq> dist_path" by auto
  with v show "dist_dir (snd (os_mkdir en q v)) = dist_dir w" by (simp add: os_mkdir_dist)
qed

lemma mkdir_events [simp]:
  "copy_attempts (map EvMkdir ps) = []"
  "remove_attempts (map EvMkdir ps) = []"
  "failures (map EvMkdir ps) = 0"
  "alert_events (map EvMkdir ps) = []"
  "mkdir_attempts (map EvMkdir ps) = ps"
  by (induction ps) simp_all

lemma os_makedirs_trace: "\<exists>ps. trace (snd (os_makedirs en p w)) = trace w @ map EvMkdir ps"
proof (rule os_makedirs_keeps [where P = "\<lambda>v. \<exists>ps. trace v = trace w @ map EvMkdir ps"])
  have "trace w = trace w @ map EvMkdir []" by simp
  then show "\<exists>ps. trace w = trace w @ map EvMkdir ps" by blast
next
  fix q :: path and v :: world
  assume "\<exists>ps. trace v = trace w @ map EvMkdir ps"
  then obtain ps where "trace v = trace w @ map EvMkdir ps" by blast
  then have "trace (snd (os_mkdir en q v)) = trace w @ map EvMkdir (ps @ [q])" by simp
  then show "\<exists>ps. trace (snd (os_mkdir en q v)) = trace w @ map EvMkdir ps" by blast
qed

text \<open>A call of \<open>os.makedirs\<close> ends in the \<open>os.mkdir\<close> of its own path, or in the
  exception of making the head.\<close>

lemma os_makedirs_end:
  "\<exists>v. (os_makedirs en p w = os_mkdir en p v \<or>
         (fst (os_makedirs en p w) \<noteq> None \<and> snd (os_makedirs en p w) = v)) \<and>
       (\<exists>ps. trace v = trace w @ map EvMkdir ps) \<and>
       (length p \<le> length dist_path \<longrightarrow> dist_dir v = dist_dir w)"
proof (cases p)
  case Nil
  have "trace w = trace w @ map EvMkdir []" by simp
  with Nil show ?thesis by auto
next
  case (Cons tail head)
  show ?thesis
  proof (cases "head \<noteq> [] \<and> \<not> dir_exists head w")
    case False
    have "trace w = trace w @ map EvMkdir []" by simp
    with False Cons show ?thesis by auto
  next
    case True
    obtain r w1 where r: "os_makedirs en head w = (r, w1)" by (cases "os_makedirs en head w")
    from os_makedirs_trace [of en head w] r
    have tr: "\<exists>ps. trace w1 = trace w @ map EvMkdir ps" by simp
    have dd: "length p \<le> length dist_path \<longrightarrow> dist_dir w1 = dist_dir w"
      using os_makedirs_dist_other [of head en w] r Cons by auto
    show ?thesis
    proof (cases "r = None \<or> r = Some FileExistsError")
      case True
      with \<open>head \<noteq> [] \<and> \<not> dir_exists head w\<close> r Cons
      have "os_makedirs en p w = os_mkdir en p w1" by auto
      with tr dd show ?thesis by blast
    next
      case False
      then obtain e where "r = Some e" "e \<noteq> FileExistsError" by (cases r) auto
      with \<open>head \<noteq> [] \<and> \<not> dir_exists head w\<close> r Cons
      have "os_makedirs en p w = (Some e, w1)" by simp
      then have "fst (os_makedirs en p w) \<noteq> None \<and> snd (os_makedirs en p w) = w1" by simp
      with tr dd show ?thesis by blast
    qed
  qed
qed

lemma os_makedirs_ok:
  assumes "fst (os_makedirs en p w) = None"
  shows "dir_exists p (snd (os_makedirs en p w))"
proof -
  from os_makedirs_end [of en p w] assms obtain v
    where "os_makedirs en p w = os_mkdir en p v" by auto
  with assms os_mkdir_ok [of en p v] show ?thesis by simp
qed

lemma os_makedirs_dist:
  assumes "dist_dir w = None"
  shows "dist_dir (snd (os_makedirs en dist_path w)) =
           (if fst (os_makedirs en dist_path w) = None then Some [] else None)"
proof -
  from os_makedirs_end [of en dist_path w] assms obtain v
    where v: "os_makedirs en dist_path w = os_mkdir en dist_path v \<or>
         (fst (os_makedirs en dist_path w) \<noteq> None \<and> snd (os_makedirs en dist_path w) = v)"
      and d: "dist_dir v = None" by auto
  from v show ?thesis
  proof
    assume "os_makedirs en dist_path w = os_mkdir en dist_path v"
    with os_mkdir_dist_path [OF d, of en] show ?thesis by simp
  next
    assume "fst (os_makedirs en dist_path w) \<noteq> None \<and> snd (os_makedirs en dist_path w) = v"
    with d show ?thesis by simp
  qed
qed

lemma os_makedirs_last:
  assumes "fst (os_makedirs en p w) = None"
  shows "\<exists>ps. trace (snd (os_makedirs en p w)) = trace w @ map EvMkdir (ps @ [p])"
proof -
  from os_makedirs_end [of en p w] assms obtain v ps
    where "os_makedirs en p w = os_mkdir en p v" and "trace v = trace w @ map EvMkdir ps" by auto
  then have "trace (snd (os_makedirs en p w)) = trace w @ map EvMkdir (ps @ [p])" by simp
  then show ?thesis by blast
qed

lemma well_formed_above:
  assumes "well_formed w"
  shows "dir_exists p w \<Longrightarrow> dir_exists (drop n p) w"
proof (induction n)
  case 0
  then show ?case by simp
next
  case (Suc n)
  let ?q = "drop n p"
  from Suc have q: "dir_exists ?q w" by simp
  have "dir_exists (tl ?q) w"
  proof (cases "?q = dist_path")
    case True
    with q assms show ?thesis by (simp add: well_formed_def dir_exists_def)
  next
    case False
    with q have "?q = [] \<or> ?q \<in> set (dirs w)" by (simp add: dir_exists_def)
    with assms show ?thesis by (auto simp add: well_formed_def)
  qed
  then show ?case by (simp add: drop_Suc tl_drop)
qed

subsection \<open>One pass\<close>

lemma after_makedirs_trace:
  "\<exists>ps. trace (after_makedirs en w) = trace w @ map EvMkdir ps"
proof (cases "dist_dir w = None")
  case True
  with os_makedirs_trace [of en dist_path w] show ?thesis by (simp add: after_makedirs_def)
next
  case False
  then have "trace (after_makedirs en w) = trace w @ map EvMkdir []"
    by (auto simp add: after_makedirs_def)
  then show ?thesis by blast
qed

lemma after_makedirs_simps [simp]:
  "copy_attempts (trace (after_makedirs en w)) = copy_attempts (trace w)"
  "remove_attempts (trace (after_makedirs en w)) = remove_attempts (trace w)"
  "failures (trace (after_makedirs en w)) = failures (trace w)"
  "alert_events (trace (after_makedirs en w)) = alert_events (trace w)"
  "src_dir (after_makedirs en w) = src_dir w"
  "clock (after_makedirs en w) = clock w"
  "lookup (dist_dir (after_makedirs en w)) = lookup (dist_dir w)"
  "listing (dist_dir (after_makedirs en w)) = listing (dist_dir w)"
proof -
  from after_makedirs_trace [of en w] obtain ps where
    "trace (after_makedirs en w) = trace w @ map EvMkdir ps" by blast
  then show "copy_attempts (trace (after_makedirs en w)) = copy_attempts (trace w)"
    "remove_attempts (trace (after_makedirs en w)) = remove_attempts (trace w)"
    "failures (trace (after_makedirs en w)) = failures (trace w)"
    "alert_events (trace (after_makedirs en w)) = alert_events (trace w)"
    by simp_all
  show "src_dir (after_makedirs en w) = src_dir w" "clock (after_makedirs en w) = clock w"
    by (simp_all add: after_makedirs_def)
  show "lookup (dist_dir (after_makedirs en w)) = lookup (dist_dir w)"
    "listing (dist_dir (after_makedirs en w)) = listing (dist_dir w)"
    by (simp_all add: after_makedirs_def os_makedirs_dist)
qed

lemma after_makedirs_exists:
  "\<not> (dist_dir w = None \<and> fst (os_makedirs en dist_path w) \<noteq> None) \<Longrightarrow>
     dist_dir (after_makedirs en w) \<noteq> None"
  by (auto simp add: after_makedirs_def os_makedirs_dist)

lemma at_snapshot_trace:
  "\<exists>ps. trace (at_snapshot en w) =
     trace w @ map EvMkdir ps @ [EvListdir SRC_DIRECTORY, EvListdir DIST_DIRECTORY]"
proof -
  from after_makedirs_trace [of en w] obtain ps where
    "trace (after_makedirs en w) = trace w @ map EvMkdir ps" by blast
  then have "trace (at_snapshot en w) =
     trace w @ map EvMkdir ps @ [EvListdir SRC_DIRECTORY, EvListdir DIST_DIRECTORY]"
    by (simp add: at_snapshot_def)
  then show ?thesis by blast
qed

lemma at_snapshot_simps [simp]:
  "copy_attempts (trace (at_snapshot en w)) = copy_attempts (trace w)"
  "remove_attempts (trace (at_snapshot en w)) = remove_attempts (trace w)"
  "failures (trace (at_snapshot en w)) = failures (trace w)"
  "alert_events (trace (at_snapshot en w)) = alert_events (trace w)"
  "src_dir (at_snapshot en w) = src_dir w"
  "clock (at_snapshot en w) = clock w"
  "lookup (dist_dir (at_snapshot en w)) = lookup (dist_dir w)"
  "listing (dist_dir (at_snapshot en w)) = listing (dist_dir w)"
  by (simp_all add: at_snapshot_def)

lemma at_snapshot_exists: "reaches_phases en w \<Longrightarrow> dist_dir (at_snapshot en w) \<noteq> None"
  by (simp add: at_snapshot_def reaches_phases_def after_makedirs_exists)

lemma at_snapshot_grows:
  "\<exists>evs. trace (at_snapshot en w) = trace w @ evs \<and> alert_events evs = []"
proof -
  from at_snapshot_trace [of en w] obtain ps where
    "trace (at_snapshot en w) =
       trace w @ map EvMkdir ps @ [EvListdir SRC_DIRECTORY, EvListdir DIST_DIRECTORY]" by blast
  then have "trace (at_snapshot en w) =
       trace w @ (map EvMkdir ps @ [EvListdir SRC_DIRECTORY, EvListdir DIST_DIRECTORY]) \<and>
     alert_events (map EvMkdir ps @ [EvListdir SRC_DIRECTORY, EvListdir DIST_DIRECTORY]) = []"
    by simp
  then show ?thesis by blast
qed

text \<open>The pass, told apart by what comes of lines 75 and 76.\<close>

lemma sync_once_makedirs_raises:
  assumes "dist_dir w = None" and "fst (os_makedirs en dist_path w) = Some e"
  shows "sync_once en w = (Inl e, after_makedirs en w)"
proof -
  from assms(2) obtain w1 where "os_makedirs en dist_path w = (Some e, w1)"
    by (cases "os_makedirs en dist_path w") simp
  with assms(1) show ?thesis
    by (simp add: sync_once_def os_path_exists_def get_dir_def after_makedirs_def)
qed

lemma sync_once_after_makedirs:
  assumes "\<not> (dist_dir w = None \<and> fst (os_makedirs en dist_path w) \<noteq> None)"
  shows "sync_once en w =
     (case os_listdir en SRC_DIRECTORY (after_makedirs en w) of
        (Inl e, w2) \<Rightarrow> (Inl e, w2)
      | (Inr src_listing, w2) \<Rightarrow>
         (case os_listdir en DIST_DIRECTORY w2 of
            (Inl e, w3) \<Rightarrow> (Inl e, w3)
          | (Inr dist_listing, w3) \<Rightarrow>
              (case sync_phases en (remdups src_listing) (remdups dist_listing) w3 of
                 (was_error, w4) \<Rightarrow> (Inr was_error, w4))))"
proof (cases "dist_dir w = None")
  case True
  with assms obtain w1 where "os_makedirs en dist_path w = (None, w1)"
    by (cases "os_makedirs en dist_path w") simp
  with True show ?thesis
    by (simp add: sync_once_def os_path_exists_def get_dir_def after_makedirs_def)
next
  case False
  then show ?thesis
    by (auto simp add: sync_once_def os_path_exists_def get_dir_def after_makedirs_def)
qed

lemma sync_once_reaches:
  assumes "reaches_phases en w"
  shows "sync_once en w =
       (Inr (fst (sync_phases en (remdups (listing (src_dir w))) (remdups (listing (dist_dir w))) (at_snapshot en w))),
        snd (sync_phases en (remdups (listing (src_dir w))) (remdups (listing (dist_dir w))) (at_snapshot en w)))"
proof -
  from assms have m: "\<not> (dist_dir w = None \<and> fst (os_makedirs en dist_path w) \<noteq> None)"
    by (simp add: reaches_phases_def)
  from after_makedirs_exists [OF m] obtain d where d: "dist_dir (after_makedirs en w) = Some d"
    by auto
  then have l: "map fst d = listing (dist_dir w)"
    using after_makedirs_simps(8) [of en w] by simp
  from assms obtain s where s: "src_dir (after_makedirs en w) = Some s" "src_dir w = Some s"
    by (auto simp add: reaches_phases_def)
  from assms d s l show ?thesis
    by (simp add: sync_once_after_makedirs [OF m] reaches_phases_def os_listdir_def get_dir_def
        at_snapshot_def Let_def split: prod.splits)
qed

lemma sync_once_raises:
  assumes "\<not> reaches_phases en w"
  shows "\<exists>e evs. fst (sync_once en w) = Inl e \<and>
       trace (snd (sync_once en w)) = trace w @ evs \<and>
       copy_attempts evs = [] \<and> remove_attempts evs = [] \<and> failures evs = 0 \<and>
       alert_events evs = [] \<and>
       lookup (dist_dir (snd (sync_once en w))) = lookup (dist_dir w) \<and>
       src_dir (snd (sync_once en w)) = src_dir w"
proof -
  from after_makedirs_trace [of en w] obtain ps where
    ps: "trace (after_makedirs en w) = trace w @ map EvMkdir ps" by blast
  show ?thesis
  proof (cases "dist_dir w = None \<and> fst (os_makedirs en dist_path w) \<noteq> None")
    case True
    then obtain e where "fst (os_makedirs en dist_path w) = Some e" by auto
    with True have "sync_once en w = (Inl e, after_makedirs en w)"
      by (simp add: sync_once_makedirs_raises)
    with ps have "fst (sync_once en w) = Inl e \<and>
       trace (snd (sync_once en w)) = trace w @ map EvMkdir ps \<and>
       copy_attempts (map EvMkdir ps) = [] \<and> remove_attempts (map EvMkdir ps) = [] \<and>
       failures (map EvMkdir ps) = 0 \<and> alert_events (map EvMkdir ps) = [] \<and>
       lookup (dist_dir (snd (sync_once en w))) = lookup (dist_dir w) \<and>
       src_dir (snd (sync_once en w)) = src_dir w" by simp
    then show ?thesis by blast
  next
    case False
    from after_makedirs_exists [OF False] obtain d where d: "dist_dir (after_makedirs en w) = Some d"
      by auto
    let ?a = "[EvListdir SRC_DIRECTORY]" and ?b = "[EvListdir SRC_DIRECTORY, EvListdir DIST_DIRECTORY]"
    from False assms have c: "src_dir w = None \<or> listdir_fails en SRC_DIRECTORY \<or>
        listdir_fails en DIST_DIRECTORY" by (auto simp add: reaches_phases_def)
    have "\<exists>e evs. sync_once en w = (Inl e, (after_makedirs en w)\<lparr>trace := trace w @ map EvMkdir ps @ evs\<rparr>) \<and>
        (evs = ?a \<or> evs = ?b)"
      using c d ps
      by (cases "src_dir w")
         (auto simp add: sync_once_after_makedirs [OF False] os_listdir_def get_dir_def emit_def Let_def)
    then obtain e evs where r: "sync_once en w =
        (Inl e, (after_makedirs en w)\<lparr>trace := trace w @ map EvMkdir ps @ evs\<rparr>)"
      and evs: "evs = ?a \<or> evs = ?b" by blast
    from r evs have "fst (sync_once en w) = Inl e \<and>
       trace (snd (sync_once en w)) = trace w @ (map EvMkdir ps @ evs) \<and>
       copy_attempts (map EvMkdir ps @ evs) = [] \<and> remove_attempts (map EvMkdir ps @ evs) = [] \<and>
       failures (map EvMkdir ps @ evs) = 0 \<and> alert_events (map EvMkdir ps @ evs) = [] \<and>
       lookup (dist_dir (snd (sync_once en w))) = lookup (dist_dir w) \<and>
       src_dir (snd (sync_once en w)) = src_dir w" by auto
    then show ?thesis by blast
  qed
qed


lemma cycle_trace:
  "trace (snd (cycle en t w)) =
     trace (snd (sync_once en w)) @ after_sync en t (fst (sync_once en w))"
  by (cases "sync_once en w")
     (auto simp add: cycle_def after_sync_def alert_if_error_def alert_msg_def alert_error_def
        time_sleep_def Let_def split: sum.splits option.splits)

lemma cycle_dist:
  "dist_dir (snd (cycle en t w)) = dist_dir (snd (sync_once en w))"
  by (cases "sync_once en w")
     (auto simp add: cycle_def alert_if_error_def alert_msg_def alert_error_def
        time_sleep_def Let_def emit_def split: sum.splits option.splits)

lemma cycle_src:
  "src_dir (snd (cycle en t w)) = src_dir (snd (sync_once en w))"
  by (cases "sync_once en w")
     (auto simp add: cycle_def alert_if_error_def alert_msg_def alert_error_def
        time_sleep_def Let_def emit_def split: sum.splits option.splits)

lemma cycle_result:
  "fst (cycle en t w) =
     (case fst (sync_once en w) of
        Inl e \<Rightarrow> Some e
      | Inr b \<Rightarrow> if b \<and> tts_fails en then Some SpeechEngineError
                 else sleep_error (t * 60))"
  by (cases "sync_once en w")
     (auto simp add: cycle_def alert_if_error_def alert_msg_def alert_error_def
        time_sleep_def Let_def emit_def split: sum.splits option.splits)

lemma after_sync_simps [simp]:
  "copy_attempts (after_sync en t r) = []"
  "remove_attempts (after_sync en t r) = []"
  "failures (after_sync en t r) = 0"
  "filter is_file_op (after_sync en t r) = []"
  by (simp_all add: after_sync_def split: sum.splits)

lemma after_sync_alerts:
  "alert_events (after_sync en t r) =
     (if r = Inr True then [EvAlertError, EvAlertMsg ''backup error''] else [])"
  by (auto simp add: after_sync_def split: sum.splits)

lemma sync_once_copies:
  "copy_attempts (trace (snd (sync_once en w))) =
     copy_attempts (trace w) @
       (if reaches_phases en w
        then filter (\<lambda>f. f \<notin> set (listing (dist_dir w))) (remdups (listing (src_dir w)))
        else [])"
proof (cases "reaches_phases en w")
  case True
  then show ?thesis by (simp add: sync_once_reaches sync_phases_copies)
next
  case False
  from sync_once_raises [OF this] show ?thesis using False by auto
qed

lemma sync_once_removes:
  "remove_attempts (trace (snd (sync_once en w))) =
     remove_attempts (trace w) @
       (if reaches_phases en w
        then filter (\<lambda>f. f \<notin> set (listing (src_dir w))) (remdups (listing (dist_dir w)))
        else [])"
proof (cases "reaches_phases en w")
  case True
  then show ?thesis by (simp add: sync_once_reaches sync_phases_removes)
next
  case False
  from sync_once_raises [OF this] show ?thesis using False by auto
qed

lemma sync_once_grows:
  "\<exists>evs. trace (snd (sync_once en w)) = trace w @ evs \<and> alert_events evs = []"
proof (cases "reaches_phases en w")
  case True
  let ?S = "remdups (listing (src_dir w))" and ?D = "remdups (listing (dist_dir w))"
  from sync_phases_grows [of en ?S ?D "at_snapshot en w"] obtain evs
    where evs: "trace (snd (sync_phases en ?S ?D (at_snapshot en w))) = trace (at_snapshot en w) @ evs"
      "alert_events evs = []" by blast
  from at_snapshot_grows [of en w] obtain pre
    where pre: "trace (at_snapshot en w) = trace w @ pre" "alert_events pre = []" by blast
  from evs pre True
  have "trace (snd (sync_once en w)) = trace w @ (pre @ evs) \<and> alert_events (pre @ evs) = []"
    by (simp add: sync_once_reaches)
  then show ?thesis by blast
next
  case False
  from sync_once_raises [OF this] show ?thesis by blast
qed

lemma sync_once_failures:
  "failures (trace w) \<le> failures (trace (snd (sync_once en w))) \<and>
   ((fst (sync_once en w) = Inr True) =
      (failures (trace w) < failures (trace (snd (sync_once en w))))) \<and>
   ((fst (sync_once en w) = Inr False) =
      (reaches_phases en w \<and> failures (trace w) = failures (trace (snd (sync_once en w)))))"
proof (cases "reaches_phases en w")
  case True
  let ?S = "remdups (listing (src_dir w))" and ?D = "remdups (listing (dist_dir w))"
  from sync_phases_failures [of "at_snapshot en w" en ?S ?D] True
  show ?thesis by (auto simp add: sync_once_reaches)
next
  case False
  from sync_once_raises [OF this] show ?thesis using False by auto
qed

lemma sync_once_frame:
  assumes "g \<in> set (listing (src_dir w))" and "g \<in> set (listing (dist_dir w))"
  shows "lookup (dist_dir (snd (sync_once en w))) g = lookup (dist_dir w) g"
proof (cases "reaches_phases en w")
  case True
  with assms show ?thesis by (simp add: sync_once_reaches sync_phases_frame)
next
  case False
  from sync_once_raises [OF this] show ?thesis by auto
qed

lemma sync_once_src [simp]: "src_dir (snd (sync_once en w)) = src_dir w"
proof (cases "reaches_phases en w")
  case True
  then show ?thesis by (simp add: sync_once_reaches)
next
  case False
  from sync_once_raises [OF this] show ?thesis by auto
qed

lemma make_re_backup_raises:
  "fst (cycle en t w) = Some e \<Longrightarrow> make_re_backup (en # ens) t w = cycle en t w"
  by (cases "cycle en t w") auto

lemma make_re_backup_continues:
  "fst (cycle en t w) = None \<Longrightarrow>
     make_re_backup (en # ens) t w = make_re_backup ens t (snd (cycle en t w))"
  by (cases "cycle en t w") auto

subsection \<open>A loop body touches only its own file\<close>

lemma copy_body_other:
  "g \<noteq> f \<Longrightarrow> lookup (dist_dir (snd (copy_body en D f s))) g = lookup (dist_dir (snd s)) g"
  using shutil_copy_frame [of g f en "emit (LogCopying f) (snd s)"]
  by (cases s) (simp add: copy_body_eq)

lemma copy_loop_other:
  "g \<notin> set xs \<Longrightarrow> lookup (dist_dir (snd (copy_loop en D xs s))) g = lookup (dist_dir (snd s)) g"
  by (induction xs arbitrary: s) (simp_all add: copy_body_other)

lemma shutil_copy_result:
  assumes "lookup (src_dir w) f = Some (File x)" and "dist_dir w \<noteq> None"
    and "lookup (dist_dir w) f \<noteq> Some Dir" and "copy_outcome en f = CopyOk"
  shows "fst (shutil_copy en f w) = None \<and>
         lookup (dist_dir (snd (shutil_copy en f w))) f =
           Some (File \<lparr>content = content x, mode = mode x, mtime = clock w\<rparr>)"
  using assms
  by (cases "src_dir w"; cases "dist_dir w") (simp_all add: shutil_copy_def Let_def update_conv')

lemma copy_body_copied:
  assumes "f \<notin> set D" and "lookup (src_dir (snd s)) f = Some (File x)" and "dist_dir (snd s) \<noteq> None"
    and "lookup (dist_dir (snd s)) f \<noteq> Some Dir" and "copy_outcome en f = CopyOk"
  shows "lookup (dist_dir (snd (copy_body en D f s))) f =
           Some (File \<lparr>content = content x, mode = mode x, mtime = clock (snd s)\<rparr>)"
  using assms shutil_copy_result [of "emit (LogCopying f) (snd s)" f x en]
  by (cases s) (simp add: copy_body_eq copy_raises_def)

lemma copy_loop_copied:
  assumes "distinct xs" and "f \<in> set xs" and "f \<notin> set D"
    and "lookup (src_dir (snd s)) f = Some (File x)" and "dist_dir (snd s) \<noteq> None"
    and "lookup (dist_dir (snd s)) f \<noteq> Some Dir" and "copy_outcome en f = CopyOk"
  shows "lookup (dist_dir (snd (copy_loop en D xs s))) f =
           Some (File \<lparr>content = content x, mode = mode x, mtime = clock (snd s)\<rparr>)"
  using assms
proof (induction xs arbitrary: s)
  case Nil
  then show ?case by simp
next
  case (Cons g xs)
  show ?case
  proof (cases "g = f")
    case True
    with Cons.prems have "f \<notin> set xs" by simp
    from copy_loop_other [OF this, of en D "copy_body en D f s"]
      copy_body_copied [of f D s x en] Cons.prems True
    show ?thesis by simp
  next
    case False
    with Cons.prems have "f \<in> set xs" "distinct xs" by auto
    from Cons.IH [OF this(2) this(1), of "copy_body en D g s"] Cons.prems False
    show ?thesis by (simp add: copy_body_other)
  qed
qed

lemma sync_phases_copied:
  assumes "distinct S" and "f \<in> set S" and "f \<notin> set D"
    and "lookup (src_dir w) f = Some (File x)" and "dist_dir w \<noteq> None"
    and "lookup (dist_dir w) f \<noteq> Some Dir" and "copy_outcome en f = CopyOk"
  shows "lookup (dist_dir (snd (sync_phases en S D w))) f =
           Some (File \<lparr>content = content x, mode = mode x, mtime = clock w\<rparr>)"
  using assms copy_loop_copied [of S f D "(False, w)" x en]
  by (simp add: sync_phases_def remove_loop_frame)

lemma lookup_None_iff: "(lookup dopt f = None) = (f \<notin> set (listing dopt))"
  using dom_lookup [of dopt] by (auto simp del: lookup_simps)

lemma copy_loop_idle:
  "set xs \<subseteq> set D \<Longrightarrow> dist_dir (snd (copy_loop en D xs s)) = dist_dir (snd s)"
proof (induction xs arbitrary: s)
  case Nil
  show ?case by simp
next
  case (Cons f xs)
  then have "dist_dir (snd (copy_body en D f s)) = dist_dir (snd s)"
    by (cases s) (simp add: copy_body_eq)
  with Cons show ?case by simp
qed

lemma remove_loop_idle:
  "set xs \<subseteq> set S \<Longrightarrow> dist_dir (snd (remove_loop en S xs s)) = dist_dir (snd s)"
proof (induction xs arbitrary: s)
  case Nil
  show ?case by simp
next
  case (Cons f xs)
  then have "dist_dir (snd (remove_body en S f s)) = dist_dir (snd s)"
    by (cases s) (simp add: remove_body_eq)
  with Cons show ?case by simp
qed

lemma sync_once_idle:
  assumes "set (listing (src_dir w)) = set (listing (dist_dir w))"
  shows "lookup (dist_dir (snd (sync_once en w))) = lookup (dist_dir w)"
proof (cases "reaches_phases en w")
  case True
  with assms show ?thesis
    by (simp add: sync_once_reaches sync_phases_def remove_loop_idle copy_loop_idle)
next
  case False
  from sync_once_raises [OF this] show ?thesis by auto
qed

subsection \<open>Which failures are logged\<close>

lemma failed_copies_simps [simp]:
  "failed_copies [] = []"
  "failed_copies (e # tr) = is_copy_failed e @ failed_copies tr"
  "failed_copies (tr @ tr') = failed_copies tr @ failed_copies tr'"
  by (simp_all add: failed_copies_def)

lemma failed_removes_simps [simp]:
  "failed_removes [] = []"
  "failed_removes (e # tr) = is_remove_failed e @ failed_removes tr"
  "failed_removes (tr @ tr') = failed_removes tr @ failed_removes tr'"
  by (simp_all add: failed_removes_def)

lemma at_snapshot_failed [simp]:
  "failed_copies (trace (at_snapshot en w)) = failed_copies (trace w)"
  "failed_removes (trace (at_snapshot en w)) = failed_removes (trace w)"
proof -
  have m: "failed_copies (map EvMkdir ps) = [] \<and> failed_removes (map EvMkdir ps) = []" for ps
    by (induction ps) simp_all
  from at_snapshot_trace [of en w] obtain ps where
    "trace (at_snapshot en w) =
       trace w @ map EvMkdir ps @ [EvListdir SRC_DIRECTORY, EvListdir DIST_DIRECTORY]" by blast
  with m [of ps] show "failed_copies (trace (at_snapshot en w)) = failed_copies (trace w)"
    and "failed_removes (trace (at_snapshot en w)) = failed_removes (trace w)" by simp_all
qed













lemma after_sync_failed [simp]:
  "failed_copies (after_sync en t r) = []"
  "failed_removes (after_sync en t r) = []"
  by (simp_all add: after_sync_def split: sum.splits)

lemma cycle_copies:
  "copy_attempts (trace (snd (cycle en t w))) =
     copy_attempts (trace w) @ (if reaches_phases en w then pending_copies w else [])"
  by (simp add: cycle_trace sync_once_copies pending_copies_def)





subsection \<open>The notification controller\<close>

lemma audio_emit_simps [simp]:
  "audio_trace (audio_emit e a) = audio_trace a @ [e]"
  "mixer_initialised (audio_emit e a) = mixer_initialised a"
  by (simp_all add: audio_emit_def)

lemma attempts_simps [simp]:
  "attempts (audio_emit e a) = attempts a @ is_attempt e"
  "attempts (a\<lparr>mixer_initialised := b\<rparr>) = attempts a"
  by (simp_all add: attempts_def)

lemma wait_busy_attempts [simp]: "attempts (wait_busy n a) = attempts a"
  by (induction n arbitrary: a) simp_all

lemma wait_busy_mixer [simp]: "mixer_initialised (wait_busy n a) = mixer_initialised a"
  by (induction n arbitrary: a) simp_all

lemma alert_sound_attempts: "attempts (snd (alert_sound ae p a)) = attempts a @ [p]"
  by (simp add: alert_sound_def Let_def split: option.splits)

lemma alert_sound_fails:
  "(\<not> mixer_initialised a \<and> \<not> device_available ae) \<or> \<not> load_ok ae p \<or> \<not> play_ok ae p \<Longrightarrow>
     fst (alert_sound ae p a) = Returns False"
  by (auto simp add: alert_sound_def Let_def split: option.splits)

lemma alert_sound_mixer:
  "mixer_initialised (snd (alert_sound ae p a)) =
     ((mixer_initialised a \<or> device_available ae) \<and> fst (alert_sound ae p a) \<noteq> Returns True)"
  by (auto simp add: alert_sound_def Let_def split: option.splits)

lemma private_alert_success_attempts:
  "attempts (snd (private_alert_success ae self a)) =
     attempts a @
       (if fst (alert_sound ae (custom_success_sound_path self) a) = Returns False
        then [custom_success_sound_path self, default_success_sound_path self]
        else [custom_success_sound_path self])"
  using alert_sound_attempts [of ae "custom_success_sound_path self" a]
  by (cases "alert_sound ae (custom_success_sound_path self) a")
     (auto simp add: private_alert_success_def alert_sound_attempts split: outcome.splits)

lemma private_alert_warning_attempts:
  "attempts (snd (private_alert_warning ae self a)) =
     attempts a @
       (if fst (alert_sound ae (custom_warning_sound_path self) a) = Returns False
        then [custom_warning_sound_path self, default_warning_sound_path self]
        else [custom_warning_sound_path self])"
proof (cases "alert_sound ae (custom_warning_sound_path self) a")
  case (Pair r a1)
  with alert_sound_attempts [of ae "custom_warning_sound_path self" a]
  have a1: "attempts a1 = attempts a @ [custom_warning_sound_path self]" by simp
  show ?thesis
  proof (cases "r = Returns False")
    case True
    obtain r2 a2 where d: "alert_sound ae (default_warning_sound_path self) a1 = (r2, a2)"
      by (cases "alert_sound ae (default_warning_sound_path self) a1")
    with alert_sound_attempts [of ae "default_warning_sound_path self" a1]
    have "attempts a2 = attempts a1 @ [default_warning_sound_path self]" by simp
    with Pair True d a1 show ?thesis
      by (simp add: private_alert_warning_def split: outcome.splits)
  next
    case False
    with Pair a1 show ?thesis
      by (auto simp add: private_alert_warning_def split: outcome.splits)
  qed
qed

lemma private_alert_error_attempts:
  "attempts (snd (private_alert_error ae self a)) =
     attempts a @
       (if fst (alert_sound ae (custom_error_sound_path self) a) = Returns False
        then [custom_error_sound_path self, default_error_sound_path self]
        else [custom_error_sound_path self])"
  using alert_sound_attempts [of ae "custom_error_sound_path self" a]
  by (cases "alert_sound ae (custom_error_sound_path self) a")
     (auto simp add: private_alert_error_def alert_sound_attempts split: outcome.splits)

subsection \<open>The names acted on\<close>


subsection \<open>The directories above the destination\<close>

lemma shutil_copy_dirs [simp]: "dirs (snd (shutil_copy en f w)) = dirs w"
  by (simp add: shutil_copy_def Let_def split: option.splits entry.splits copy_fault.splits)

lemma os_remove_dirs [simp]: "dirs (snd (os_remove en f w)) = dirs w"
  by (simp add: os_remove_def Let_def split: option.splits entry.splits)

lemma copy_body_dirs [simp]: "dirs (snd (copy_body en D f s)) = dirs (snd s)"
  by (cases s) (simp add: copy_body_eq)

lemma remove_body_dirs [simp]: "dirs (snd (remove_body en S f s)) = dirs (snd s)"
  by (cases s) (simp add: remove_body_eq)

lemma copy_loop_dirs [simp]: "dirs (snd (copy_loop en D xs s)) = dirs (snd s)"
  by (induction xs arbitrary: s) simp_all

lemma remove_loop_dirs [simp]: "dirs (snd (remove_loop en S xs s)) = dirs (snd s)"
  by (induction xs arbitrary: s) simp_all

lemma sync_phases_dirs [simp]: "dirs (snd (sync_phases en S D w)) = dirs w"
  by (simp add: sync_phases_def)

lemma dir_exists_cong:
  "dirs v = dirs w \<Longrightarrow> (dist_dir v = None) = (dist_dir w = None) \<Longrightarrow>
     dir_exists q v = dir_exists q w"
  by (simp add: dir_exists_def)

lemma sync_once_stopped:
  assumes "\<not> reaches_phases en w"
  shows "dirs (snd (sync_once en w)) = dirs (after_makedirs en w) \<and>
         dist_dir (snd (sync_once en w)) = dist_dir (after_makedirs en w)"
proof (cases "dist_dir w = None \<and> fst (os_makedirs en dist_path w) \<noteq> None")
  case True
  then obtain e where "fst (os_makedirs en dist_path w) = Some e" by auto
  with True show ?thesis by (simp add: sync_once_makedirs_raises)
next
  case False
  from False assms have c: "src_dir w = None \<or> listdir_fails en SRC_DIRECTORY \<or>
      listdir_fails en DIST_DIRECTORY" by (auto simp add: reaches_phases_def)
  from after_makedirs_exists [OF False] obtain d where d: "dist_dir (after_makedirs en w) = Some d"
    by auto
  from c d show ?thesis
    by (cases "src_dir w")
       (auto simp add: sync_once_after_makedirs [OF False] os_listdir_def get_dir_def Let_def)
qed

lemma sync_once_keeps_dirs:
  "dir_exists q (snd (sync_once en w)) = dir_exists q (after_makedirs en w)"
proof (cases "reaches_phases en w")
  case True
  then show ?thesis
    by (intro dir_exists_cong) (simp_all add: sync_once_reaches at_snapshot_def)
next
  case False
  from sync_once_stopped [OF this] show ?thesis by (intro dir_exists_cong) simp_all
qed

lemma cycle_dirs: "dirs (snd (cycle en t w)) = dirs (snd (sync_once en w))"
  by (cases "sync_once en w")
     (auto simp add: cycle_def alert_if_error_def alert_msg_def alert_error_def
        time_sleep_def Let_def emit_def split: sum.splits option.splits)

lemma cycle_keeps_dirs:
  "dir_exists q (snd (cycle en t w)) = dir_exists q (snd (sync_once en w))"
  by (intro dir_exists_cong) (simp_all add: cycle_dirs cycle_dist)

lemma after_makedirs_above:
  assumes "well_formed w" and "dist_dir w = None" and "fst (os_makedirs en dist_path w) = None"
  shows "dir_exists (drop n dist_path) (after_makedirs en w)"
proof -
  from assms(2) have a: "after_makedirs en w = snd (os_makedirs en dist_path w)"
    by (simp add: after_makedirs_def)
  from assms(1) have "well_formed (after_makedirs en w)" unfolding a by (rule os_makedirs_wf)
  moreover from assms(3) have "dir_exists dist_path (after_makedirs en w)"
    unfolding a by (rule os_makedirs_ok)
  ultimately show ?thesis by (rule well_formed_above)
qed

lemma sync_once_starts:
  assumes "dist_dir w = None" and "fst (os_makedirs en dist_path w) = None"
  shows "\<exists>ps rest. trace (snd (sync_once en w)) =
           trace w @ map EvMkdir (ps @ [dist_path]) @ EvListdir SRC_DIRECTORY # rest"
proof -
  let ?S = "remdups (listing (src_dir w))" and ?D = "remdups (listing (dist_dir w))"
  from assms have m: "\<not> (dist_dir w = None \<and> fst (os_makedirs en dist_path w) \<noteq> None)" by simp
  from os_makedirs_last [OF assms(2)] assms(1) obtain ps
    where ps: "trace (after_makedirs en w) = trace w @ map EvMkdir (ps @ [dist_path])"
    by (auto simp add: after_makedirs_def)
  have "\<exists>rest. trace (snd (sync_once en w)) =
      trace (after_makedirs en w) @ EvListdir SRC_DIRECTORY # rest"
  proof (cases "reaches_phases en w")
    case True
    from sync_phases_grows [of en ?S ?D "at_snapshot en w"] obtain evs
      where "trace (snd (sync_phases en ?S ?D (at_snapshot en w))) = trace (at_snapshot en w) @ evs"
      by blast
    with True have "trace (snd (sync_once en w)) =
        trace (after_makedirs en w) @ EvListdir SRC_DIRECTORY # (EvListdir DIST_DIRECTORY # evs)"
      by (simp add: sync_once_reaches at_snapshot_def)
    then show ?thesis by blast
  next
    case False
    with m have c: "src_dir w = None \<or> listdir_fails en SRC_DIRECTORY \<or>
        listdir_fails en DIST_DIRECTORY" by (auto simp add: reaches_phases_def)
    from after_makedirs_exists [OF m] obtain d where d: "dist_dir (after_makedirs en w) = Some d"
      by auto
    have "trace (snd (sync_once en w)) = trace (after_makedirs en w) @ EvListdir SRC_DIRECTORY # [] \<or>
          trace (snd (sync_once en w)) =
            trace (after_makedirs en w) @ EvListdir SRC_DIRECTORY # [EvListdir DIST_DIRECTORY]"
      using c d
      by (cases "src_dir w")
         (auto simp add: sync_once_after_makedirs [OF m] os_listdir_def get_dir_def Let_def)
    then show ?thesis by blast
  qed
  then obtain rest where "trace (snd (sync_once en w)) =
      trace (after_makedirs en w) @ EvListdir SRC_DIRECTORY # rest" by blast
  with ps have "trace (snd (sync_once en w)) =
      trace w @ map EvMkdir (ps @ [dist_path]) @ EvListdir SRC_DIRECTORY # rest" by simp
  then show ?thesis by blast
qed

lemma cycle_makedirs_fails:
  assumes "dist_dir w = None" and "fst (os_makedirs en dist_path w) = Some e"
  shows "cycle en t w = (Some e, snd (os_makedirs en dist_path w))"
  using assms sync_once_makedirs_raises [OF assms]
  by (simp add: cycle_def after_makedirs_def)

lemma os_makedirs_bound:
  assumes "dir_exists q (snd (os_makedirs en p w))"
  shows "dir_exists q w \<or> length q \<le> length p"
proof -
  have "\<forall>q. dir_exists q (snd (os_makedirs en p w)) \<longrightarrow> dir_exists q w \<or> length q \<le> length p"
  proof (rule os_makedirs_keeps
      [where P = "\<lambda>v. \<forall>q. dir_exists q v \<longrightarrow> dir_exists q w \<or> length q \<le> length p"])
    show "\<forall>q. dir_exists q w \<longrightarrow> dir_exists q w \<or> length q \<le> length p" by simp
  next
    fix q' :: path and v :: world
    assume "length q' \<le> length p"
      and "\<forall>q. dir_exists q v \<longrightarrow> dir_exists q w \<or> length q \<le> length p"
    then show "\<forall>q. dir_exists q (snd (os_mkdir en q' v)) \<longrightarrow> dir_exists q w \<or> length q \<le> length p"
      by (auto simp add: os_mkdir_exists)
  qed
  with assms show ?thesis by blast
qed

lemma os_makedirs_succeeds:
  "p \<noteq> [] \<Longrightarrow> \<not> dir_exists p w \<Longrightarrow> \<forall>n. \<not> mkdir_fails en (drop n p) \<Longrightarrow>
     fst (os_makedirs en p w) = None"
proof (induction en p w rule: os_makedirs.induct)
  case (1 en w)
  then show ?case by simp
next
  case (2 en tail head w)
  let ?p = "tail # head"
  from "2.prems"(3) have nf: "\<not> mkdir_fails en ?p" by (metis drop0)
  show ?case
  proof (cases "head \<noteq> [] \<and> \<not> dir_exists head w")
    case False
    then have e: "os_makedirs en ?p w = os_mkdir en ?p w" by auto
    from False have "dir_exists (tl ?p) w" by auto
    with "2.prems"(2) nf os_mkdir_raises [of en ?p w] have "fst (os_mkdir en ?p w) = None" by simp
    with e show ?thesis by simp
  next
    case True
    have "\<forall>n. \<not> mkdir_fails en (drop n head)"
    proof
      fix n
      from "2.prems"(3) have "\<not> mkdir_fails en (drop (Suc n) ?p)" by blast
      then show "\<not> mkdir_fails en (drop n head)" by simp
    qed
    with "2.IH" True have ok: "fst (os_makedirs en head w) = None" by simp
    then obtain w1 where w1: "os_makedirs en head w = (None, w1)"
      by (cases "os_makedirs en head w") simp
    with True have e: "os_makedirs en ?p w = os_mkdir en ?p w1" by simp
    from os_makedirs_ok [OF ok] w1 have h: "dir_exists (tl ?p) w1" by simp
    have "\<not> dir_exists ?p w1"
    proof
      assume "dir_exists ?p w1"
      with w1 have "dir_exists ?p (snd (os_makedirs en head w))" by simp
      from os_makedirs_bound [OF this] "2.prems"(2) show False by simp
    qed
    with h nf os_mkdir_raises [of en ?p w1] have "fst (os_mkdir en ?p w1) = None" by simp
    with e show ?thesis by simp
  qed
qed

section \<open>Properties of the two components\<close>



text \<open>
  C2. When the source and the destination list the same set of names, a pass calls
  neither \<open>shutil.copy\<close> nor \<open>os.remove\<close>, whatever the environment does, and leaves
  the destination as it was.
\<close>

theorem idle_when_listings_agree:
  assumes "set (listing (src_dir w)) = set (listing (dist_dir w))"
  shows "copy_attempts (trace (snd (cycle en t w))) = copy_attempts (trace w) \<and>
         remove_attempts (trace (snd (cycle en t w))) = remove_attempts (trace w) \<and>
         lookup (dist_dir (snd (cycle en t w))) = lookup (dist_dir w)"
  using assms
  by (simp add: cycle_trace cycle_dist sync_once_copies sync_once_removes sync_once_idle)

theorem idle_when_listings_agree_witness:
  "set (listing (src_dir synced_world)) = set (listing (dist_dir synced_world)) \<and>
   copy_attempts (trace (snd (cycle faulty_env 1 synced_world))) = [] \<and>
   remove_attempts (trace (snd (cycle faulty_env 1 synced_world))) = []"
proof -
  have h: "set (listing (src_dir synced_world)) = set (listing (dist_dir synced_world))"
    by (simp add: synced_world_def insert_commute)
  from idle_when_listings_agree [OF h, of faulty_env 1] h show ?thesis
    by (simp add: synced_world_def)
qed

text \<open>
  C4. A pass calls \<open>alert_error\<close> and \<open>alert_msg\<close> exactly when it logged at least one
  failed copy or removal: then each is called once, with the message
  \<open>backup error\<close>, however many files failed, and otherwise neither is called. The
  calls come after every file operation of the pass.
\<close>

theorem alert_exactly_when_error:
  "alert_events (trace (snd (cycle en t w))) =
     alert_events (trace w) @
       (if failures (trace w) < failures (trace (snd (cycle en t w)))
        then [EvAlertError, EvAlertMsg ''backup error''] else []) \<and>
   (\<exists>pre post. trace (snd (cycle en t w)) = trace w @ pre @ post \<and>
      alert_events pre = [] \<and> filter is_file_op post = [] \<and> failures post = 0)"
proof -
  from sync_once_grows [of en w] obtain pre
    where pre: "trace (snd (sync_once en w)) = trace w @ pre" "alert_events pre = []" by blast
  let ?post = "after_sync en t (fst (sync_once en w))"
  have t: "trace (snd (cycle en t w)) = trace w @ pre @ ?post"
    by (simp add: cycle_trace pre)
  have f: "failures (trace (snd (cycle en t w))) = failures (trace (snd (sync_once en w)))"
    by (simp add: cycle_trace)
  have "alert_events (trace (snd (cycle en t w))) =
     alert_events (trace w) @
       (if failures (trace w) < failures (trace (snd (cycle en t w)))
        then [EvAlertError, EvAlertMsg ''backup error''] else [])"
    using sync_once_failures [of w en] by (simp add: t pre after_sync_alerts f)
  moreover have "alert_events pre = [] \<and> filter is_file_op ?post = [] \<and> failures ?post = 0"
    using pre by simp
  ultimately show ?thesis using t by blast
qed

theorem alert_exactly_when_error_witness:
  "failures (trace (snd (cycle faulty_env 1 scenario_world))) = 2 \<and>
   alert_events (trace (snd (cycle faulty_env 1 scenario_world))) =
     [EvAlertError, EvAlertMsg ''backup error''] \<and>
   failures (trace (snd (cycle quiet_env 1 scenario_world))) = 0 \<and>
   alert_events (trace (snd (cycle quiet_env 1 scenario_world))) = []"
proof -
  have 1: "failures (trace (snd (cycle faulty_env 1 scenario_world))) = 2" by code_simp
  have 2: "failures (trace (snd (cycle quiet_env 1 scenario_world))) = 0" by code_simp
  have 3: "trace scenario_world = []" by (simp add: scenario_world_def)
  from alert_exactly_when_error [of faulty_env 1 scenario_world]
    alert_exactly_when_error [of quiet_env 1 scenario_world] 1 2 3
  show ?thesis by simp
qed

text \<open>
  C5. A name that is in both snapshots is neither copied nor removed by the pass, and
  the destination entry of that name stays what it was: only the names are compared.
\<close>

theorem common_files_untouched:
  assumes "f \<in> set (listing (src_dir w))" and "f \<in> set (listing (dist_dir w))"
  shows "count_list (copy_attempts (trace (snd (cycle en t w)))) f =
           count_list (copy_attempts (trace w)) f \<and>
         count_list (remove_attempts (trace (snd (cycle en t w)))) f =
           count_list (remove_attempts (trace w)) f \<and>
         lookup (dist_dir (snd (cycle en t w))) f = lookup (dist_dir w) f"
  using assms
  by (simp add: cycle_trace cycle_dist sync_once_copies sync_once_removes sync_once_frame
      count_list_0_iff)

theorem common_files_untouched_witness:
  "count_list (copy_attempts (trace (snd (cycle quiet_env 1 scenario_world)))) ''b.txt'' = 0 \<and>
   count_list (remove_attempts (trace (snd (cycle quiet_env 1 scenario_world)))) ''b.txt'' = 0 \<and>
   lookup (dist_dir (snd (cycle quiet_env 1 scenario_world))) ''b.txt'' =
     Some (File \<lparr>content = ''old'', mode = 384, mtime = 0\<rparr>)"
proof -
  have 1: "''b.txt'' \<in> set (listing (src_dir scenario_world))"
    by (simp add: scenario_world_def)
  have 2: "''b.txt'' \<in> set (listing (dist_dir scenario_world))"
    by (simp add: scenario_world_def)
  from common_files_untouched [OF 1 2, of quiet_env 1] show ?thesis
    by (simp add: scenario_world_def)
qed

text \<open>
  C8, as the code has it. A copy that succeeds gives the destination file the contents
  and the permission bits of the source file. Its modification time is the time of the
  copy, not that of the source file: \<open>shutil.copy\<close> does not carry timestamps over.
\<close>

theorem copy_keeps_content_and_mode:
  assumes "reaches_phases en w"
    and "f \<in> set (listing (src_dir w))" and "f \<notin> set (listing (dist_dir w))"
    and "lookup (src_dir w) f = Some (File x)" and "copy_outcome en f = CopyOk"
  shows "lookup (dist_dir (snd (cycle en t w))) f =
           Some (File \<lparr>content = content x, mode = mode x, mtime = clock w\<rparr>)"
proof -
  let ?S = "remdups (listing (src_dir w))" and ?D = "remdups (listing (dist_dir w))"
  from assms(3) have "lookup (dist_dir (at_snapshot en w)) f = None"
    by (simp add: lookup_None_iff del: lookup_simps)
  then have nd: "lookup (dist_dir (at_snapshot en w)) f \<noteq> Some Dir" by simp
  from assms(4) have sx: "lookup (src_dir (at_snapshot en w)) f = Some (File x)" by simp
  from sync_phases_copied [of ?S f ?D "at_snapshot en w" x en, OF _ _ _ sx at_snapshot_exists [OF assms(1)] nd assms(5)] assms(2,3)
  have "lookup (dist_dir (snd (sync_phases en ?S ?D (at_snapshot en w)))) f =
          Some (File \<lparr>content = content x, mode = mode x, mtime = clock w\<rparr>)"
    by simp
  with assms(1) show ?thesis by (simp add: cycle_dist sync_once_reaches)
qed

theorem copy_keeps_content_and_mode_witness:
  "lookup (dist_dir (snd (cycle quiet_env 1 scenario_world))) ''a.txt'' =
     Some (File \<lparr>content = ''aaa'', mode = 420, mtime = 5\<rparr>)"
proof -
  have 1: "reaches_phases quiet_env scenario_world"
    by (simp add: reaches_phases_def quiet_env_def scenario_world_def)
  have 2: "''a.txt'' \<in> set (listing (src_dir scenario_world))"
    by (simp add: scenario_world_def)
  have 3: "''a.txt'' \<notin> set (listing (dist_dir scenario_world))"
    by (simp add: scenario_world_def)
  have 4: "lookup (src_dir scenario_world) ''a.txt'' =
      Some (File \<lparr>content = ''aaa'', mode = 420, mtime = 1\<rparr>)"
    by (simp add: scenario_world_def)
  have 5: "copy_outcome quiet_env ''a.txt'' = CopyOk"
    by (simp add: quiet_env_def)
  from copy_keeps_content_and_mode [OF 1 2 3 4 5, of 1] show ?thesis
    by (simp add: scenario_world_def)
qed

text \<open>
  C8, as the specification has it, fails: in the scenario the pass copies \<open>a.txt\<close>,
  nothing fails, and the copy differs from the source file in its modification time.
\<close>

theorem copy_keeps_all_metadata_counterexample:
  "lookup (src_dir scenario_world) ''a.txt'' =
     Some (File \<lparr>content = ''aaa'', mode = 420, mtime = 1\<rparr>) \<and>
   fst (cycle quiet_env 1 scenario_world) = None \<and>
   copy_attempts (trace (snd (cycle quiet_env 1 scenario_world))) = [''a.txt''] \<and>
   lookup (dist_dir (snd (cycle quiet_env 1 scenario_world))) ''a.txt'' \<noteq>
     lookup (src_dir scenario_world) ''a.txt''"
  by code_simp



text \<open>
  C6. The constructor derives each custom path from the default path of the same
  kind with \<open>os.path.basename\<close> and keeps the default paths as given. Each of
  \<open>_alert_success\<close>, \<open>_alert_warning\<close> and \<open>_alert_error\<close> first calls \<open>alert_sound\<close>
  with the custom path, and calls it with the default path next exactly when that
  first call returned \<open>False\<close>; otherwise \<open>alert_sound\<close> is called once only.
\<close>

theorem custom_override_fallback:
  "custom_success_sound_path (NotificationController_init basename ds de dw) = basename ds \<and>
   custom_warning_sound_path (NotificationController_init basename ds de dw) = basename dw \<and>
   custom_error_sound_path (NotificationController_init basename ds de dw) = basename de \<and>
   default_success_sound_path (NotificationController_init basename ds de dw) = ds \<and>
   default_warning_sound_path (NotificationController_init basename ds de dw) = dw \<and>
   default_error_sound_path (NotificationController_init basename ds de dw) = de \<and>
   attempts (snd (private_alert_success ae (NotificationController_init basename ds de dw) a)) =
     attempts a @
       (if fst (alert_sound ae (basename ds) a) = Returns False then [basename ds, ds]
        else [basename ds]) \<and>
   attempts (snd (private_alert_warning ae (NotificationController_init basename ds de dw) a)) =
     attempts a @
       (if fst (alert_sound ae (basename dw) a) = Returns False then [basename dw, dw]
        else [basename dw]) \<and>
   attempts (snd (private_alert_error ae (NotificationController_init basename ds de dw) a)) =
     attempts a @
       (if fst (alert_sound ae (basename de) a) = Returns False then [basename de, de]
        else [basename de])"
  by (simp add: private_alert_success_attempts private_alert_warning_attempts
      private_alert_error_attempts)
     (simp add: NotificationController_init_def)

theorem custom_override_fallback_witness:
  "attempts (snd (private_alert_error default_only_env (audio_alert posix_basename) silent_audio)) =
     [''bad.mp3'', ''data/bad.mp3''] \<and>
   attempts (snd (private_alert_error all_files_env (audio_alert posix_basename) silent_audio)) =
     [''bad.mp3'']"
proof -
  have 1: "posix_basename ''data/bad.mp3'' = ''bad.mp3''" by code_simp
  have 2: "fst (alert_sound default_only_env ''bad.mp3'' silent_audio) = Returns False" by code_simp
  have 3: "fst (alert_sound all_files_env ''bad.mp3'' silent_audio) = Returns True" by code_simp
  have 4: "attempts silent_audio = []" by code_simp
  from custom_override_fallback [of posix_basename "''data/bad.mp3''" "''data/bad.mp3''"
      "''data/bad.mp3''" default_only_env silent_audio]
    custom_override_fallback [of posix_basename "''data/bad.mp3''" "''data/bad.mp3''"
      "''data/bad.mp3''" all_files_env silent_audio] 1 2 3 4
  show ?thesis by (simp add: audio_alert_def)
qed

text \<open>
  C7. \<open>alert_sound\<close> on a path that cannot be loaded returns \<open>False\<close> and does not
  raise, but it leaves the mixer initialised: \<open>pygame.mixer.quit()\<close> is reached only
  when the playback succeeded, and the handler of the exception does not call it.
\<close>

theorem failed_alert_sound_keeps_mixer:
  "alert_sound default_only_env ''missing.mp3'' silent_audio =
     (Returns False,
      \<lparr>mixer_initialised = True,
       audio_trace = [AlertSound ''missing.mp3'', MixerInit, MusicLoad ''missing.mp3'']\<rparr>) \<and>
   alert_sound default_only_env ''data/bad.mp3'' silent_audio =
     (Returns True,
      \<lparr>mixer_initialised = False,
       audio_trace = [AlertSound ''data/bad.mp3'', MixerInit, MusicLoad ''data/bad.mp3'',
         MusicPlay, BusySleep, BusySleep, MusicStop, MixerQuit]\<rparr>)"
  by code_simp

text \<open>
  C9. When the destination directory is absent at the start of a pass, \<open>os.makedirs\<close>
  is called before \<open>os.listdir\<close> and so before every copy and removal. Unless the
  environment refuses one of the directories, it succeeds whichever directories above
  the destination are missing: the calls of \<open>os.mkdir\<close> are the first calls of the pass
  and end with the destination itself, the destination and every directory above it
  exist afterwards, and the snapshot taken of the destination is empty, so that every
  source name is copied. When \<open>os.makedirs\<close> raises, nothing but calls of \<open>os.mkdir\<close>
  has been made: the exception ends the pass and \<open>make_re_backup\<close>, whatever would
  have come next.
\<close>

theorem destination_created_first:
  assumes "dist_dir w = None"
  shows "((\<forall>n. \<not> mkdir_fails en (drop n dist_path)) \<longrightarrow>
            fst (os_makedirs en dist_path w) = None) \<and>
         (fst (os_makedirs en dist_path w) = Some e \<longrightarrow>
            cycle en t w = (Some e, snd (os_makedirs en dist_path w)) \<and>
            make_re_backup (en # ens) t w = (Some e, snd (os_makedirs en dist_path w)) \<and>
            (\<exists>ps. trace (snd (cycle en t w)) = trace w @ map EvMkdir ps)) \<and>
         (fst (os_makedirs en dist_path w) = None \<longrightarrow>
            dist_dir (snd (cycle en t w)) \<noteq> None \<and>
            (well_formed w \<longrightarrow> (\<forall>n. dir_exists (drop n dist_path) (snd (cycle en t w)))) \<and>
            (\<exists>ps rest. trace (snd (cycle en t w)) =
                trace w @ map EvMkdir (ps @ [dist_path]) @ EvListdir SRC_DIRECTORY # rest) \<and>
            (reaches_phases en w \<longrightarrow>
               copy_attempts (trace (snd (cycle en t w))) =
                 copy_attempts (trace w) @ remdups (listing (src_dir w))))"
proof -
  have a: "(\<forall>n. \<not> mkdir_fails en (drop n dist_path)) \<longrightarrow> fst (os_makedirs en dist_path w) = None"
    using assms by (simp add: os_makedirs_succeeds dir_exists_def)
  have b: "cycle en t w = (Some e, snd (os_makedirs en dist_path w)) \<and>
      make_re_backup (en # ens) t w = (Some e, snd (os_makedirs en dist_path w)) \<and>
      (\<exists>ps. trace (snd (cycle en t w)) = trace w @ map EvMkdir ps)"
    if f: "fst (os_makedirs en dist_path w) = Some e"
  proof -
    from assms f have c: "cycle en t w = (Some e, snd (os_makedirs en dist_path w))"
      by (rule cycle_makedirs_fails)
    then have "fst (cycle en t w) = Some e" by simp
    from make_re_backup_raises [OF this, of ens] c os_makedirs_trace [of en dist_path w]
    show ?thesis by simp
  qed
  have c: "dist_dir (snd (cycle en t w)) \<noteq> None \<and>
      (well_formed w \<longrightarrow> (\<forall>n. dir_exists (drop n dist_path) (snd (cycle en t w)))) \<and>
      (\<exists>ps rest. trace (snd (cycle en t w)) =
          trace w @ map EvMkdir (ps @ [dist_path]) @ EvListdir SRC_DIRECTORY # rest) \<and>
      (reaches_phases en w \<longrightarrow>
         copy_attempts (trace (snd (cycle en t w))) =
           copy_attempts (trace w) @ remdups (listing (src_dir w)))"
    if ok: "fst (os_makedirs en dist_path w) = None"
  proof -
    have ex: "dir_exists q (snd (cycle en t w)) = dir_exists q (after_makedirs en w)" for q
      by (simp add: cycle_keeps_dirs sync_once_keeps_dirs)
    from assms ok have "dir_exists dist_path (after_makedirs en w)"
      by (simp add: after_makedirs_def os_makedirs_ok)
    then have 1: "dist_dir (snd (cycle en t w)) \<noteq> None"
      using ex [of dist_path] by (simp add: dir_exists_def)
    have 2: "well_formed w \<longrightarrow> (\<forall>n. dir_exists (drop n dist_path) (snd (cycle en t w)))"
      using assms ok by (simp add: ex after_makedirs_above)
    from sync_once_starts [OF assms ok] obtain ps rest
      where "trace (snd (sync_once en w)) =
          trace w @ map EvMkdir (ps @ [dist_path]) @ EvListdir SRC_DIRECTORY # rest" by blast
    then have "trace (snd (cycle en t w)) =
        trace w @ map EvMkdir (ps @ [dist_path]) @
          EvListdir SRC_DIRECTORY # (rest @ after_sync en t (fst (sync_once en w)))"
      by (simp add: cycle_trace)
    then have 3: "\<exists>ps rest. trace (snd (cycle en t w)) =
        trace w @ map EvMkdir (ps @ [dist_path]) @ EvListdir SRC_DIRECTORY # rest" by blast
    have 4: "reaches_phases en w \<longrightarrow>
        copy_attempts (trace (snd (cycle en t w))) =
          copy_attempts (trace w) @ remdups (listing (src_dir w))"
      using assms by (simp add: cycle_copies pending_copies_def)
    from 1 2 3 4 show ?thesis by blast
  qed
  from a b c show ?thesis by blast
qed

theorem destination_created_first_witness:
  "dist_dir fresh_world = None \<and> well_formed fresh_world \<and>
   fst (os_mkdir quiet_env dist_path fresh_world) = Some FileNotFoundError \<and>
   fst (os_makedirs quiet_env dist_path fresh_world) = None \<and>
   dir_exists [''minecraft_servers''] (snd (cycle quiet_env 1 fresh_world)) \<and>
   dir_exists [''server_tfc_halloween'', ''minecraft_servers''] (snd (cycle quiet_env 1 fresh_world)) \<and>
   dir_exists dist_path (snd (cycle quiet_env 1 fresh_world)) \<and>
   copy_attempts (trace (snd (cycle quiet_env 1 fresh_world))) = [''a.txt'', ''b.txt''] \<and>
   fst (os_makedirs faulty_env dist_path fresh_world) = Some OSError \<and>
   make_re_backup [faulty_env, quiet_env] 1 fresh_world =
     (Some OSError, snd (os_makedirs faulty_env dist_path fresh_world)) \<and>
   mkdir_attempts (trace (snd (os_makedirs faulty_env dist_path fresh_world))) =
     [[''minecraft_servers''], [''server_tfc_halloween'', ''minecraft_servers'']]"
proof -
  have h: "dist_dir fresh_world = None" by (simp add: fresh_world_def)
  have 1: "\<forall>n. \<not> mkdir_fails quiet_env (drop n dist_path)" by (simp add: quiet_env_def)
  have 2: "well_formed fresh_world" by code_simp
  have 3: "fst (os_mkdir quiet_env dist_path fresh_world) = Some FileNotFoundError" by code_simp
  have 4: "fst (os_makedirs faulty_env dist_path fresh_world) = Some OSError" by code_simp
  have 5: "reaches_phases quiet_env fresh_world" by code_simp
  have 6: "remdups (listing (src_dir fresh_world)) = [''a.txt'', ''b.txt'']" by code_simp
  have 7: "trace fresh_world = []" by (simp add: fresh_world_def)
  have 8: "mkdir_attempts (trace (snd (os_makedirs faulty_env dist_path fresh_world))) =
     [[''minecraft_servers''], [''server_tfc_halloween'', ''minecraft_servers'']]" by code_simp
  have 9: "drop 2 dist_path = [''minecraft_servers''] \<and>
      drop 1 dist_path = [''server_tfc_halloween'', ''minecraft_servers''] \<and>
      drop 0 dist_path = dist_path" by (simp add: dist_path_def)
  from destination_created_first [OF h, of quiet_env _ 1 "[]"] 1 2
  have ok: "fst (os_makedirs quiet_env dist_path fresh_world) = None"
    and ex: "\<forall>n. dir_exists (drop n dist_path) (snd (cycle quiet_env 1 fresh_world))"
    and cp: "copy_attempts (trace (snd (cycle quiet_env 1 fresh_world))) = [''a.txt'', ''b.txt'']"
    using 5 6 7 by simp_all
  from ex 9 have ex3: "dir_exists [''minecraft_servers''] (snd (cycle quiet_env 1 fresh_world)) \<and>
      dir_exists [''server_tfc_halloween'', ''minecraft_servers''] (snd (cycle quiet_env 1 fresh_world)) \<and>
      dir_exists dist_path (snd (cycle quiet_env 1 fresh_world))"
    by metis
  from destination_created_first [OF h, of faulty_env OSError 1 "[quiet_env]"] 4
  have "make_re_backup [faulty_env, quiet_env] 1 fresh_world =
     (Some OSError, snd (os_makedirs faulty_env dist_path fresh_world))" by simp
  with h 2 3 4 8 ok ex3 cp show ?thesis by simp
qed

text \<open>
  C10. \<open>alert_msg\<close> has no handler: when the speech engine fails, the exception leaves
  \<open>alert_msg\<close>, whatever the message. In a pass that set the flag, the call of
  \<open>alert_msg\<close> follows that of \<open>alert_error\<close> and is the last thing the pass does: the
  exception leaves the pass, without the sleep, and ends \<open>make_re_backup\<close>.
\<close>

theorem speech_failure_ends_loop:
  assumes "tts_fails en"
  shows "alert_msg en message v = (Some SpeechEngineError, emit (EvAlertMsg message) v) \<and>
         (fst (sync_once en w) = Inr True \<longrightarrow>
            fst (cycle en t w) = Some SpeechEngineError \<and>
            make_re_backup (en # ens) t w = cycle en t w \<and>
            trace (snd (cycle en t w)) =
              trace (snd (sync_once en w)) @ [EvAlertError, EvAlertMsg ''backup error''])"
proof -
  have "alert_msg en message v = (Some SpeechEngineError, emit (EvAlertMsg message) v)"
    using assms by (simp add: alert_msg_def Let_def)
  moreover have "fst (cycle en t w) = Some SpeechEngineError \<and>
            make_re_backup (en # ens) t w = cycle en t w \<and>
            trace (snd (cycle en t w)) =
              trace (snd (sync_once en w)) @ [EvAlertError, EvAlertMsg ''backup error'']"
    if f: "fst (sync_once en w) = Inr True"
  proof -
    from f assms have r: "fst (cycle en t w) = Some SpeechEngineError"
      by (simp add: cycle_result)
    from f assms have "trace (snd (cycle en t w)) =
        trace (snd (sync_once en w)) @ [EvAlertError, EvAlertMsg ''backup error'']"
      by (simp add: cycle_trace after_sync_def)
    with r make_re_backup_raises [OF r, of ens] show ?thesis by simp
  qed
  ultimately show ?thesis by blast
qed

theorem speech_failure_ends_loop_witness:
  "tts_fails faulty_env \<and> fst (sync_once faulty_env scenario_world) = Inr True \<and>
   fst (make_re_backup [faulty_env, quiet_env] 1 scenario_world) = Some SpeechEngineError \<and>
   make_re_backup [faulty_env, quiet_env] 1 scenario_world = cycle faulty_env 1 scenario_world"
proof -
  have h: "tts_fails faulty_env" by (simp add: faulty_env_def)
  have 1: "fst (sync_once faulty_env scenario_world) = Inr True" by code_simp
  from speech_failure_ends_loop [OF h, of _ _ scenario_world 1 "[quiet_env]"] h 1
  show ?thesis by simp
qed

end
